theory Spec2Isabelle
  imports Main "HOL-Library.Sublist"
begin

section \<open>Strings as the program uses them\<close>

text \<open>
  A Python \<open>str\<close> is modelled as a \<open>string\<close>: a list of 8-bit characters, read as the code
  points below 256. The line feed is the character with code 10.
\<close>

definition newline :: char where
  "newline = CHR 0x0A"

text \<open>\<open>s.startswith(p)\<close>.\<close>

definition startswith :: "string \<Rightarrow> string \<Rightarrow> bool" where
  "startswith s p = prefix p s"

text \<open>\<open>p in s\<close> for strings: \<open>p\<close> occurs in \<open>s\<close> as a contiguous block.\<close>

fun contains :: "string \<Rightarrow> string \<Rightarrow> bool" where
  "contains [] p = (p = [])"
| "contains (c # cs) p = (prefix p (c # cs) \<or> contains cs p)"

text \<open>
  \<open>s.replace(old, new)\<close>: the occurrences of \<open>old\<close> are found from left to right, without
  overlap, and each is replaced. For an empty \<open>old\<close> Python puts \<open>new\<close> before every
  character and at the end.
\<close>

fun replace_scan :: "string \<Rightarrow> string \<Rightarrow> string \<Rightarrow> string" where
  "replace_scan old new [] = []"
| "replace_scan old new (c # cs) =
     (if prefix old (c # cs) then new @ replace_scan old new (drop (length old - 1) cs)
      else c # replace_scan old new cs)"

definition replace :: "string \<Rightarrow> string \<Rightarrow> string \<Rightarrow> string" where
  "replace s old new =
     (if old = [] then new @ concat (map (\<lambda>c. c # new) s) else replace_scan old new s)"

text \<open>\<open>s.strip(chars)\<close>: the characters of \<open>chars\<close> are removed from both ends.\<close>

definition strip_chars :: "string \<Rightarrow> string \<Rightarrow> string" where
  "strip_chars s chars =
     rev (dropWhile (\<lambda>c. c \<in> set chars) (rev (dropWhile (\<lambda>c. c \<in> set chars) s)))"

text \<open>
  \<open>s.split(sep, 1)\<close> for a separator of one character: the string itself when the separator
  does not occur, otherwise the part before its first occurrence and the part after it.
\<close>

definition split1 :: "string \<Rightarrow> char \<Rightarrow> string list" where
  "split1 s sep =
     (if sep \<in> set s then [takeWhile (\<lambda>c. c \<noteq> sep) s, tl (dropWhile (\<lambda>c. c \<noteq> sep) s)]
      else [s])"

text \<open>
  \<open>s.strip()\<close> removes white space from both ends. Below code point 256 the characters for
  which \<open>str.isspace\<close> holds are 9 to 13, 28 to 32, 133 and 160.
\<close>

definition isspace :: "char \<Rightarrow> bool" where
  "isspace c = (let n = (of_char c :: nat) in
     (9 \<le> n \<and> n \<le> 13) \<or> (28 \<le> n \<and> n \<le> 32) \<or> n = 133 \<or> n = 160)"

definition strip :: "string \<Rightarrow> string" where
  "strip s = rev (dropWhile isspace (rev (dropWhile isspace s)))"

text \<open>
  \<open>s.lower()\<close>. Below code point 256 the letters with a lower-case form are A to Z and
  the code points 192 to 222 except 215; the lower-case form is 32 above.
\<close>

definition lower_char :: "char \<Rightarrow> char" where
  "lower_char c = (let n = (of_char c :: nat) in
     if (65 \<le> n \<and> n \<le> 90) \<or> (192 \<le> n \<and> n \<le> 222 \<and> n \<noteq> 215) then char_of (n + 32) else c)"

definition lower :: "string \<Rightarrow> string" where
  "lower s = map lower_char s"

section \<open>Regular expressions\<close>

text \<open>
  The patterns of the program use literals, character classes given by ranges, sequence,
  alternative, \<open>?\<close>, \<open>+\<close> and \<open>*\<close>. A class is the list of its ranges; a single character
  is the range from itself to itself.
\<close>

datatype regex =
    Fail
  | Lit string
  | Class "(char \<times> char) list"
  | Seq regex regex
  | Alt regex regex
  | Opt regex
  | Plus regex
  | Star regex

definition in_class :: "(char \<times> char) list \<Rightarrow> char \<Rightarrow> bool" where
  "in_class rs c =
     list_ex (\<lambda>(lo, hi). (of_char lo :: nat) \<le> of_char c \<and> (of_char c :: nat) \<le> of_char hi) rs"

text \<open>Whether the pattern matches the empty string.\<close>

primrec nullable :: "regex \<Rightarrow> bool" where
  "nullable Fail = False"
| "nullable (Lit w) = (w = [])"
| "nullable (Class rs) = False"
| "nullable (Seq r s) = (nullable r \<and> nullable s)"
| "nullable (Alt r s) = (nullable r \<or> nullable s)"
| "nullable (Opt r) = True"
| "nullable (Plus r) = nullable r"
| "nullable (Star r) = True"

text \<open>The pattern for what may follow after the character \<open>c\<close> has been read.\<close>

primrec after :: "char \<Rightarrow> regex \<Rightarrow> regex" where
  "after c Fail = Fail"
| "after c (Lit w) = (case w of [] \<Rightarrow> Fail | x # xs \<Rightarrow> if c = x then Lit xs else Fail)"
| "after c (Class rs) = (if in_class rs c then Lit [] else Fail)"
| "after c (Seq r s) =
     (if nullable r then Alt (Seq (after c r) s) (after c s) else Seq (after c r) s)"
| "after c (Alt r s) = Alt (after c r) (after c s)"
| "after c (Opt r) = after c r"
| "after c (Plus r) = Seq (after c r) (Star r)"
| "after c (Star r) = Seq (after c r) (Star r)"

text \<open>The pattern matches the whole of the string.\<close>

definition fullmatch :: "regex \<Rightarrow> string \<Rightarrow> bool" where
  "fullmatch r s = nullable (foldl (\<lambda>q c. after c q) r s)"

text \<open>
  \<open>re.match\<close> of a pattern \<open>^r$\<close>, as a truth value. Without the multi-line flag \<open>$\<close> holds at
  the end of the string and also just before a line feed that is the last character, so
  the pattern matches when \<open>r\<close> matches the whole string or the string without that last
  line feed.
\<close>

definition match_anchored :: "regex \<Rightarrow> string \<Rightarrow> bool" where
  "match_anchored r s =
     (fullmatch r s \<or> (s \<noteq> [] \<and> last s = newline \<and> fullmatch r (butlast s)))"

section \<open>Configuration\<close>

definition GITHUB_BASE :: string where
  "GITHUB_BASE = ''https://datlittladucky.github.io/Websites/''"

definition START_PAGE :: string where
  "START_PAGE = GITHUB_BASE @ ''start/index.html''"

section \<open>Validation and parsing\<close>

text \<open>The class \<open>[a-zA-Z0-9-]\<close> and the class \<open>[a-zA-Z0-9\-_/]\<close>.\<close>

definition label_class :: "(char \<times> char) list" where
  "label_class = [(CHR ''a'', CHR ''z''), (CHR ''A'', CHR ''Z''), (CHR ''0'', CHR ''9''),
     (CHR ''-'', CHR ''-'')]"

definition path_class :: "(char \<times> char) list" where
  "path_class = [(CHR ''a'', CHR ''z''), (CHR ''A'', CHR ''Z''), (CHR ''0'', CHR ''9''),
     (CHR ''-'', CHR ''-''), (CHR ''_'', CHR ''_''), (CHR ''/'', CHR ''/'')]"

text \<open>
  The pattern of \<open>validate_input\<close> between its anchors:
  \<^verbatim>\<open>(https?://)?([a-zA-Z0-9-]+\.)+(com|co\.uk|org)(/[a-zA-Z0-9\-_/]*)?\<close>
\<close>

definition pattern :: regex where
  "pattern =
     Seq (Opt (Seq (Lit ''http'') (Seq (Opt (Lit ''s'')) (Lit ''://''))))
    (Seq (Plus (Seq (Plus (Class label_class)) (Lit ''.'')))
    (Seq (Alt (Lit ''com'') (Alt (Seq (Lit ''co'') (Seq (Lit ''.'') (Lit ''uk''))) (Lit ''org'')))
         (Opt (Seq (Lit ''/'') (Star (Class path_class))))))"

definition validate_input :: "string \<Rightarrow> bool" where
  "validate_input user_input = match_anchored pattern user_input"

definition parse_input :: "string \<Rightarrow> string \<times> string" where
  "parse_input user_input =
     (let user_input = replace (replace user_input ''http://'' '''') ''https://'' '''';
          user_input = strip_chars user_input ''/'';
          parts = split1 user_input (CHR ''/'');
          domain = hd parts;
          subpath = (if length parts > 1 then parts ! 1 else '''')
      in (domain, subpath))"

section \<open>Views and the effects of the handlers\<close>

text \<open>
  What a view shows is the location the rendering engine has loaded: nothing yet, a
  locator, or a document handed over in memory by \<open>setHtml\<close>. The attribute
  \<open>virtual_url\<close> that the program stores on the rendering widget and the label of the tab
  are fields of the view.
\<close>

datatype location = Blank | Url string | Document string

record view =
  location :: location
  virtual_url :: string
  tab_text :: string

text \<open>
  The handlers act on the view through calls into the toolkit. Each handler is modelled by
  the list of the calls it makes, in the order of the source: the assignment to
  \<open>virtual_url\<close>, \<open>setUrl\<close>, \<open>setHtml\<close>, \<open>setTabText\<close> and \<open>runJavaScript\<close>. A locator
  built from a string is taken to be that string, and the engine is taken to load what
  \<open>setUrl\<close> and \<open>setHtml\<close> hand over. A script only reports back later, through its
  callback.
\<close>

datatype effect =
    SetVirtualUrl string
  | SetUrl string
  | SetHtml string
  | SetTabText string
  | RunJavaScript string

fun apply_effect :: "effect \<Rightarrow> view \<Rightarrow> view" where
  "apply_effect (SetVirtualUrl s) v = v\<lparr>virtual_url := s\<rparr>"
| "apply_effect (SetUrl u) v = v\<lparr>location := Url u\<rparr>"
| "apply_effect (SetHtml h) v = v\<lparr>location := Document h\<rparr>"
| "apply_effect (SetTabText s) v = v\<lparr>tab_text := s\<rparr>"
| "apply_effect (RunJavaScript js) v = v"

definition run :: "effect list \<Rightarrow> view \<Rightarrow> view" where
  "run effs v = fold apply_effect effs v"

section \<open>The navigation interceptor\<close>

text \<open>
  \<open>re.match(r"https?://(.+)", url_str)\<close> and its group 1: the string starts with
  \<open>http://\<close> or \<open>https://\<close>, and the group takes as many characters as it can; the dot
  stands for every character but the line feed, and at least one is needed.
\<close>

definition scheme_match :: "string \<Rightarrow> string option" where
  "scheme_match url_str =
     (case (if prefix ''http://'' url_str then Some (drop 7 url_str)
            else if prefix ''https://'' url_str then Some (drop 8 url_str)
            else None) of
        None \<Rightarrow> None
      | Some rest \<Rightarrow>
          (let group1 = takeWhile (\<lambda>c. c \<noteq> newline) rest
           in if group1 = [] then None else Some group1))"

text \<open>
  The result is the calls made on the view together with the returned truth value:
  \<open>True\<close> lets the engine go on with the navigation, \<open>False\<close> cancels it.
\<close>

definition acceptNavigationRequest :: "string \<Rightarrow> effect list \<times> bool" where
  "acceptNavigationRequest url_str =
     (if startswith url_str GITHUB_BASE then ([], True)
      else case scheme_match url_str of
        Some user_input \<Rightarrow>
          (if validate_input user_input then
             (case parse_input user_input of (domain, subpath) \<Rightarrow>
                (let (new_url, virtual_url) =
                       (if subpath \<noteq> [] then
                          (GITHUB_BASE @ domain @ ''/'' @ subpath @ ''.html'',
                           domain @ ''/'' @ subpath)
                        else (GITHUB_BASE @ domain @ ''/index.html'', domain))
                 in ([SetVirtualUrl virtual_url, SetUrl new_url], False)))
           else ([], False))
      | None \<Rightarrow> ([], False))"

section \<open>The tab\<close>

definition update_tab_title :: "string \<Rightarrow> effect list" where
  "update_tab_title title =
     (if title \<noteq> [] \<and> strip title \<noteq> [] then [SetTabText (take 40 title)]
      else [SetTabText ''Untitled''])"

definition sync_virtual_url :: "string \<Rightarrow> effect list" where
  "sync_virtual_url url =
     (if startswith url GITHUB_BASE then
        (let stripped = replace url GITHUB_BASE [];
             stripped = replace stripped ''.html'' [];
             stripped = strip_chars stripped ''/''
         in [SetVirtualUrl stripped])
      else [])"

text \<open>\<open>sep.join(parts)\<close>.\<close>

fun join :: "string \<Rightarrow> string list \<Rightarrow> string" where
  "join sep [] = []"
| "join sep [p] = p"
| "join sep (p # q # ps) = p @ sep @ join sep (q # ps)"

text \<open>The document of \<open>show_custom_404\<close>, line by line.\<close>

definition error_html :: "string \<Rightarrow> string" where
  "error_html message = join [newline]
     [[],
      ''        <html>'',
      ''            <head>'',
      ''                <style>'',
      ''                    body {'',
      ''                        background-color: #111;'',
      ''                        color: white;'',
      ''                        font-family: Arial;'',
      ''                        text-align: center;'',
      ''                        margin-top: 15%;'',
      ''                    }'',
      ''                    h1 {'',
      ''                        font-size: 60px;'',
      ''                        color: red;'',
      ''                    }'',
      ''                    p {'',
      ''                        font-size: 20px;'',
      ''                        color: #ccc;'',
      ''                    }'',
      ''                </style>'',
      ''            </head>'',
      ''            <body>'',
      ''                <h1>404</h1>'',
      ''                <p>'' @ message @ ''</p>'',
      ''                <p>The requested site does not exist.</p>'',
      ''            </body>'',
      ''        </html>'',
      ''        '']"

definition show_custom_404 :: "string \<Rightarrow> effect list" where
  "show_custom_404 message = [SetHtml (error_html message)]"

definition check_load_success :: "bool \<Rightarrow> effect list" where
  "check_load_success success =
     (if \<not> success then show_custom_404 ''Page failed to load''
      else [RunJavaScript ''document.title''])"

text \<open>The callback of the script; the title may be absent.\<close>

definition check_title_for_404 :: "string option \<Rightarrow> effect list" where
  "check_title_for_404 title =
     (case title of
        None \<Rightarrow> []
      | Some t \<Rightarrow> if t \<noteq> [] \<and> contains t ''404'' then show_custom_404 ''Page not found'' else [])"

section \<open>The main window\<close>

text \<open>
  \<open>add_tab\<close> creates a view with an empty \<open>virtual_url\<close> and the label \<open>New Tab\<close>, and loads
  the start locator when one is given.
\<close>

definition add_tab :: "string option \<Rightarrow> view" where
  "add_tab start_url =
     (let new_tab = \<lparr>location = Blank, virtual_url = [], tab_text = ''New Tab''\<rparr>
      in case start_url of
           None \<Rightarrow> new_tab
         | Some u \<Rightarrow> if u \<noteq> [] then run [SetUrl u] new_tab else new_tab)"

text \<open>\<open>load_page\<close>, on the text of the address bar, for the view of the current tab.\<close>

definition load_page :: "string \<Rightarrow> effect list" where
  "load_page text =
     (let user_input = strip text in
      if lower user_input \<in> set [''start'', ''websites/start''] then [SetUrl START_PAGE]
      else if \<not> validate_input user_input then show_custom_404 ''Invalid domain format''
      else
        (case parse_input user_input of (domain, subpath) \<Rightarrow>
           (let (target_url, virtual_url) =
                  (if subpath \<noteq> [] then
                     (GITHUB_BASE @ domain @ ''/'' @ subpath @ ''.html'',
                      domain @ ''/'' @ subpath)
                   else (GITHUB_BASE @ domain @ ''/index.html'', domain))
            in [SetVirtualUrl virtual_url, SetUrl target_url, SetTabText domain])))"

section \<open>The life of a view\<close>

text \<open>
  The events that reach a view: the engine asks the interceptor about a navigation (of the
  main frame or of a frame inside it) and goes on with it when the answer is \<open>True\<close>; the
  engine reports that its locator changed, that a load finished, that the title changed, or
  the result of the title script; the user submits the address bar.
\<close>

datatype event =
    NavigationRequest string bool
  | UrlChanged
  | LoadFinished bool
  | TitleResult "string option"
  | TitleChanged string
  | Submit string

definition step :: "view \<Rightarrow> event \<Rightarrow> view" where
  "step v e =
     (case e of
        NavigationRequest url is_main_frame \<Rightarrow>
          (case acceptNavigationRequest url of (effs, accepted) \<Rightarrow>
             (let v' = run effs v
              in if accepted \<and> is_main_frame then v'\<lparr>location := Url url\<rparr> else v'))
      | UrlChanged \<Rightarrow>
          (case location v of Url u \<Rightarrow> run (sync_virtual_url u) v | _ \<Rightarrow> v)
      | LoadFinished success \<Rightarrow> run (check_load_success success) v
      | TitleResult title \<Rightarrow> run (check_title_for_404 title) v
      | TitleChanged title \<Rightarrow> run (update_tab_title title) v
      | Submit text \<Rightarrow> run (load_page text) v)"

text \<open>Every tab is opened on the start page.\<close>

inductive reachable :: "view \<Rightarrow> bool" where
  opened: "reachable (add_tab (Some START_PAGE))"
| stepped: "reachable v \<Longrightarrow> reachable (step v e)"

section \<open>The notions of the specification\<close>

subsection \<open>The language of a pattern\<close>

text \<open>
  The strings a pattern stands for, as sets: the reference against which the matcher is
  checked.
\<close>

definition conc :: "string set \<Rightarrow> string set \<Rightarrow> string set" where
  "conc A B = {u @ v | u v. u \<in> A \<and> v \<in> B}"

definition star :: "string set \<Rightarrow> string set" where
  "star A = {concat ws | ws. set ws \<subseteq> A}"

primrec lang :: "regex \<Rightarrow> string set" where
  "lang Fail = {}"
| "lang (Lit w) = {w}"
| "lang (Class rs) = {[c] | c. in_class rs c}"
| "lang (Seq r s) = conc (lang r) (lang s)"
| "lang (Alt r s) = lang r \<union> lang s"
| "lang (Opt r) = insert [] (lang r)"
| "lang (Plus r) = conc (lang r) (star (lang r))"
| "lang (Star r) = star (lang r)"

subsection \<open>The address grammar\<close>

text \<open>
  The grammar of addresses in the words of the specification: an optional scheme
  \<open>http://\<close> or \<open>https://\<close>; one or more labels, each a non-empty run of letters, digits
  and hyphens followed by a dot; one of the endings \<open>com\<close>, \<open>co.uk\<close>, \<open>org\<close>; and an
  optional path that starts with a slash and goes on with letters, digits, hyphens,
  underscores and slashes. The address \<open>example.com\<close> of the specification's scenarios has
  one label before its ending.
\<close>

definition alnum :: "char \<Rightarrow> bool" where
  "alnum c = (let n = (of_char c :: nat) in
     (97 \<le> n \<and> n \<le> 122) \<or> (65 \<le> n \<and> n \<le> 90) \<or> (48 \<le> n \<and> n \<le> 57))"

definition label_char :: "char \<Rightarrow> bool" where
  "label_char c = (alnum c \<or> c = CHR ''-'')"

definition path_char :: "char \<Rightarrow> bool" where
  "path_char c = (alnum c \<or> c = CHR ''-'' \<or> c = CHR ''_'' \<or> c = CHR ''/'')"

definition address_grammar :: "string \<Rightarrow> bool" where
  "address_grammar s =
     (\<exists>scheme labels tld path.
        s = scheme @ concat (map (\<lambda>l. l @ ''.'') labels) @ tld @ path \<and>
        scheme \<in> {[], ''http://'', ''https://''} \<and>
        labels \<noteq> [] \<and> (\<forall>l\<in>set labels. l \<noteq> [] \<and> (\<forall>c\<in>set l. label_char c)) \<and>
        tld \<in> {''com'', ''co.uk'', ''org''} \<and>
        (path = [] \<or> (\<exists>p. path = CHR ''/'' # p \<and> (\<forall>c\<in>set p. path_char c))))"

subsection \<open>Parsing as the specification words it\<close>

text \<open>
  Strip a leading scheme, strip the slashes at both ends, and split at the first slash;
  the sub-path is empty when there is no slash.
\<close>

definition strip_scheme :: "string \<Rightarrow> string" where
  "strip_scheme s =
     (if prefix ''http://'' s then drop 7 s
      else if prefix ''https://'' s then drop 8 s
      else s)"

definition normalise :: "string \<Rightarrow> string" where
  "normalise s = strip_chars (strip_scheme s) ''/''"

definition parse_spec :: "string \<Rightarrow> string \<times> string" where
  "parse_spec s =
     (let t = normalise s
      in (takeWhile (\<lambda>c. c \<noteq> CHR ''/'') t, drop 1 (dropWhile (\<lambda>c. c \<noteq> CHR ''/'') t)))"

text \<open>
  The Virtual Address of a parsed address: the domain, followed by a slash and the
  sub-path when there is one. It is also the address put together again.
\<close>

fun rejoin :: "string \<times> string \<Rightarrow> string" where
  "rejoin (domain, subpath) = (if subpath = [] then domain else domain @ ''/'' @ subpath)"

subsection \<open>Rewritten Target and allowed locations\<close>

text \<open>
  The Rewritten Target of a parsed address in the words of the specification: the host, the
  domain and the sub-path with \<open>.html\<close>, or the host, the domain and \<open>index.html\<close>,
  joined by slashes. The host is the base locator without its final slash.
\<close>

definition static_host :: string where
  "static_host = ''https://datlittladucky.github.io/Websites''"

definition rewritten_target :: "string \<times> string \<Rightarrow> string" where
  "rewritten_target a =
     (case a of (domain, subpath) \<Rightarrow>
        if subpath \<noteq> [] then static_host @ ''/'' @ domain @ ''/'' @ subpath @ ''.html''
        else static_host @ ''/'' @ domain @ ''/index.html'')"

text \<open>The part of a string before its first line feed.\<close>

definition first_line :: "string \<Rightarrow> string" where
  "first_line s = takeWhile (\<lambda>c. c \<noteq> newline) s"

text \<open>
  The locations the specification allows a view to show: the start page, a locator under
  the base locator of the static host, and the error documents made in memory.
\<close>

definition error_documents :: "string list" where
  "error_documents =
     map error_html [''Page failed to load'', ''Page not found'', ''Invalid domain format'']"

definition allowed_location :: "location \<Rightarrow> bool" where
  "allowed_location l =
     (case l of
        Blank \<Rightarrow> False
      | Url u \<Rightarrow> u = START_PAGE \<or> startswith u GITHUB_BASE
      | Document h \<Rightarrow> h \<in> set error_documents)"

subsection \<open>The Virtual Address of a loaded locator\<close>

text \<open>
  The Virtual Address of a locator under the static host in the words of the
  specification: the locator without the host prefix, without the suffix \<open>.html\<close> and
  without the slashes at its ends.
\<close>

definition strip_suffix :: "string \<Rightarrow> string \<Rightarrow> string" where
  "strip_suffix s suf = (if suffix suf s then take (length s - length suf) s else s)"

definition virtual_of :: "string \<Rightarrow> string" where
  "virtual_of u = strip_chars (strip_suffix (drop (length GITHUB_BASE) u) ''.html'') ''/''"

section \<open>Auxiliary facts\<close>

subsection \<open>The matcher and the language of a pattern\<close>

lemma conc_iff: "w \<in> conc A B \<longleftrightarrow> (\<exists>u v. w = u @ v \<and> u \<in> A \<and> v \<in> B)"
  by (auto simp: conc_def)

lemma nil_in_star: "[] \<in> star A"
  by (auto simp: star_def intro: exI [of _ "[]"])

lemma star_step: "u \<in> A \<Longrightarrow> v \<in> star A \<Longrightarrow> u @ v \<in> star A"
proof -
  assume u: "u \<in> A" and "v \<in> star A"
  then obtain ws where ws: "v = concat ws" "set ws \<subseteq> A" unfolding star_def by blast
  then have "u @ v = concat (u # ws)" "set (u # ws) \<subseteq> A" using u by simp_all
  then show ?thesis unfolding star_def by blast
qed

lemma cons_in_concat:
  "c # w = concat ws \<Longrightarrow> set ws \<subseteq> A \<Longrightarrow>
     \<exists>u vs. c # u \<in> A \<and> set vs \<subseteq> A \<and> w = u @ concat vs"
proof (induction ws)
  case Nil
  then show ?case by simp
next
  case (Cons x xs)
  show ?case
  proof (cases x)
    case Nil
    with Cons show ?thesis by simp
  next
    case (Cons y ys)
    with Cons.prems have "c # ys \<in> A" "set xs \<subseteq> A" "w = ys @ concat xs" by auto
    then show ?thesis by blast
  qed
qed

lemma cons_in_star:
  "c # w \<in> star A \<longleftrightarrow> (\<exists>u v. w = u @ v \<and> c # u \<in> A \<and> v \<in> star A)"
proof
  assume "c # w \<in> star A"
  then obtain ws where "c # w = concat ws" "set ws \<subseteq> A" unfolding star_def by blast
  from cons_in_concat [OF this] obtain u vs
    where "c # u \<in> A" "set vs \<subseteq> A" "w = u @ concat vs" by blast
  moreover from this have "concat vs \<in> star A" unfolding star_def by blast
  ultimately show "\<exists>u v. w = u @ v \<and> c # u \<in> A \<and> v \<in> star A" by blast
next
  assume "\<exists>u v. w = u @ v \<and> c # u \<in> A \<and> v \<in> star A"
  then obtain u v where "w = u @ v" "c # u \<in> A" "v \<in> star A" by blast
  then show "c # w \<in> star A" using star_step [of "c # u" A v] by simp
qed

lemma cons_in_conc:
  "c # w \<in> conc A B \<longleftrightarrow>
     (\<exists>u v. w = u @ v \<and> c # u \<in> A \<and> v \<in> B) \<or> ([] \<in> A \<and> c # w \<in> B)"
  by (auto simp: conc_iff Cons_eq_append_conv)

lemma nullable_lang: "nullable r \<longleftrightarrow> [] \<in> lang r"
  by (induction r) (auto simp: conc_iff nil_in_star)

lemma after_lang: "w \<in> lang (after c r) \<longleftrightarrow> c # w \<in> lang r"
proof (induction r arbitrary: w)
  case (Lit x)
  then show ?case by (cases x) auto
next
  case (Seq r s)
  then have "w \<in> lang (after c (Seq r s)) \<longleftrightarrow>
      (\<exists>u v. w = u @ v \<and> c # u \<in> lang r \<and> v \<in> lang s) \<or> ([] \<in> lang r \<and> c # w \<in> lang s)"
    by (auto simp: conc_iff nullable_lang)
  then show ?case unfolding lang.simps cons_in_conc .
next
  case (Plus r)
  then have "w \<in> lang (after c (Plus r)) \<longleftrightarrow>
      (\<exists>u v. w = u @ v \<and> c # u \<in> lang r \<and> v \<in> star (lang r))"
    by (auto simp: conc_iff)
  then show ?case unfolding lang.simps cons_in_conc cons_in_star by blast
next
  case (Star r)
  then show ?case by (auto simp: cons_in_star conc_iff)
qed auto

lemma fullmatch_lang: "fullmatch r s \<longleftrightarrow> s \<in> lang r"
proof (induction s arbitrary: r)
  case Nil
  then show ?case by (simp add: fullmatch_def nullable_lang)
next
  case (Cons c cs)
  have "fullmatch r (c # cs) = fullmatch (after c r) cs" by (simp add: fullmatch_def)
  then show ?case using Cons after_lang by simp
qed

subsection \<open>The pattern of validation and the address grammar\<close>

lemma code_is_char: "(of_char c :: nat) = of_char d \<longleftrightarrow> c = d"
  by (rule of_char_eq_iff)

lemma code_hyphen: "(of_char c :: nat) = 45 \<longleftrightarrow> c = CHR ''-''"
  using code_is_char [of c "CHR ''-''"] by simp

lemma code_underscore: "(of_char c :: nat) = 95 \<longleftrightarrow> c = CHR ''_''"
  using code_is_char [of c "CHR ''_''"] by simp

lemma code_slash: "(of_char c :: nat) = 47 \<longleftrightarrow> c = CHR ''/''"
  using code_is_char [of c "CHR ''/''"] by simp

lemma in_label_class: "in_class label_class c \<longleftrightarrow> label_char c"
  by (auto simp: in_class_def label_class_def label_char_def alnum_def Let_def code_hyphen)

lemma in_path_class: "in_class path_class c \<longleftrightarrow> path_char c"
  by (auto simp: in_class_def path_class_def path_char_def alnum_def Let_def
      code_hyphen code_underscore code_slash)

lemma star_singletons: "star {[c] | c. P c} = {w. \<forall>c\<in>set w. P c}"
proof (rule set_eqI, rule iffI)
  fix w assume "w \<in> star {[c] | c. P c}"
  then obtain ws where ws: "w = concat ws" "set ws \<subseteq> {[c] | c. P c}"
    unfolding star_def by blast
  then show "w \<in> {w. \<forall>c\<in>set w. P c}" by auto
next
  fix w assume "w \<in> {w. \<forall>c\<in>set w. P c}"
  then have "w = concat (map (\<lambda>c. [c]) w)" "set (map (\<lambda>c. [c]) w) \<subseteq> {[c] | c. P c}"
    by (induction w) auto
  then show "w \<in> star {[c] | c. P c}" unfolding star_def by blast
qed

lemma lang_star_class: "lang (Star (Class rs)) = {w. \<forall>c\<in>set w. in_class rs c}"
  by (simp add: star_singletons)

lemma lang_plus_class: "lang (Plus (Class rs)) = {w. w \<noteq> [] \<and> (\<forall>c\<in>set w. in_class rs c)}"
proof -
  have "lang (Plus (Class rs)) = conc {[c] | c. in_class rs c} {w. \<forall>c\<in>set w. in_class rs c}"
    by (simp add: star_singletons)
  also have "\<dots> = {w. w \<noteq> [] \<and> (\<forall>c\<in>set w. in_class rs c)}"
  proof (rule set_eqI)
    fix w show "w \<in> conc {[c] | c. in_class rs c} {w. \<forall>c\<in>set w. in_class rs c}
        \<longleftrightarrow> w \<in> {w. w \<noteq> [] \<and> (\<forall>c\<in>set w. in_class rs c)}"
    proof (cases w)
      case Nil
      then show ?thesis by (simp add: conc_iff)
    next
      case (Cons a as)
      have "a # as = [a] @ as" by simp
      then show ?thesis unfolding Cons cons_in_conc by auto
    qed
  qed
  finally show ?thesis .
qed

lemma conc_star: "conc A (star A) = {concat ws | ws. ws \<noteq> [] \<and> set ws \<subseteq> A}"
proof (rule set_eqI, rule iffI)
  fix w assume "w \<in> conc A (star A)"
  then obtain u ws where "w = u @ concat ws" "u \<in> A" "set ws \<subseteq> A"
    unfolding conc_def star_def by blast
  then have "w = concat (u # ws)" "u # ws \<noteq> []" "set (u # ws) \<subseteq> A" by simp_all
  then show "w \<in> {concat ws | ws. ws \<noteq> [] \<and> set ws \<subseteq> A}" by blast
next
  fix w assume "w \<in> {concat ws | ws. ws \<noteq> [] \<and> set ws \<subseteq> A}"
  then obtain ws where ws: "w = concat ws" "ws \<noteq> []" "set ws \<subseteq> A" by blast
  then obtain u us where "ws = u # us" by (cases ws) auto
  with ws have "w = u @ concat us" "u \<in> A" "concat us \<in> star A"
    unfolding star_def by auto
  then show "w \<in> conc A (star A)" unfolding conc_iff by blast
qed

lemma image_list: "set ws \<subseteq> f ` L \<Longrightarrow> \<exists>ls. ws = map f ls \<and> set ls \<subseteq> L"
proof (induction ws)
  case Nil
  then show ?case by simp
next
  case (Cons w ws)
  then obtain ls l where "ws = map f ls" "set ls \<subseteq> L" "w = f l" "l \<in> L" by auto
  then have "w # ws = map f (l # ls) \<and> set (l # ls) \<subseteq> L" by simp
  then show ?case by (rule exI)
qed

lemma lang_hosts:
  "lang (Plus (Seq (Plus (Class label_class)) (Lit ''.''))) =
     {concat (map (\<lambda>l. l @ ''.'') labels) | labels.
        labels \<noteq> [] \<and> (\<forall>l\<in>set labels. l \<noteq> [] \<and> (\<forall>c\<in>set l. label_char c))}"
    (is "?L = ?R")
proof -
  let ?f = "\<lambda>l. l @ ''.''"
  let ?G = "{l. l \<noteq> [] \<and> (\<forall>c\<in>set l. label_char c)}"
  have A: "lang (Seq (Plus (Class label_class)) (Lit ''.'')) = ?f ` ?G"
    unfolding lang.simps(4) lang_plus_class by (auto simp: conc_def in_label_class)
  have "?L = {concat ws | ws. ws \<noteq> [] \<and> set ws \<subseteq> ?f ` ?G}"
    unfolding lang.simps(7) A conc_star ..
  also have "\<dots> = ?R"
  proof (rule set_eqI, rule iffI)
    fix w assume "w \<in> {concat ws | ws. ws \<noteq> [] \<and> set ws \<subseteq> ?f ` ?G}"
    then obtain ws where ws: "w = concat ws" "ws \<noteq> []" "set ws \<subseteq> ?f ` ?G" by blast
    from image_list [OF ws(3)] obtain ls where "ws = map ?f ls" "set ls \<subseteq> ?G" by blast
    with ws have "w = concat (map ?f ls)" "ls \<noteq> []"
       "\<forall>l\<in>set ls. l \<noteq> [] \<and> (\<forall>c\<in>set l. label_char c)" by auto
    then show "w \<in> ?R" by blast
  next
    fix w assume "w \<in> ?R"
    then obtain ls where ls: "w = concat (map ?f ls)" "ls \<noteq> []"
       "\<forall>l\<in>set ls. l \<noteq> [] \<and> (\<forall>c\<in>set l. label_char c)" by blast
    then have "map ?f ls \<noteq> []" "set (map ?f ls) \<subseteq> ?f ` ?G" by auto
    with ls(1) show "w \<in> {concat ws | ws. ws \<noteq> [] \<and> set ws \<subseteq> ?f ` ?G}" by blast
  qed
  finally show ?thesis .
qed

lemma lang_scheme:
  "lang (Opt (Seq (Lit ''http'') (Seq (Opt (Lit ''s'')) (Lit ''://'')))) =
     {[], ''http://'', ''https://''}"
  by (auto simp: conc_def)

lemma lang_tld:
  "lang (Alt (Lit ''com'') (Alt (Seq (Lit ''co'') (Seq (Lit ''.'') (Lit ''uk''))) (Lit ''org''))) =
     {''com'', ''co.uk'', ''org''}"
  by (auto simp: conc_def)

lemma lang_path:
  "lang (Opt (Seq (Lit ''/'') (Star (Class path_class)))) =
     {path. path = [] \<or> (\<exists>p. path = CHR ''/'' # p \<and> (\<forall>c\<in>set p. path_char c))}"
  unfolding lang.simps(6) lang.simps(4) lang_star_class by (auto simp: conc_def in_path_class)

lemma lang_pattern: "s \<in> lang pattern \<longleftrightarrow> address_grammar s"
  unfolding pattern_def lang.simps(4) [of "Opt _"] lang.simps(4) [of "Plus _"]
    lang.simps(4) [of "Alt _ _"] lang_scheme lang_hosts lang_tld lang_path
    address_grammar_def conc_iff
  by blast

lemma validate_input_iff:
  "validate_input s \<longleftrightarrow> address_grammar s \<or> (\<exists>t. s = t @ [newline] \<and> address_grammar t)"
proof -
  have "(s \<noteq> [] \<and> last s = newline \<and> P (butlast s)) \<longleftrightarrow> (\<exists>t. s = t @ [newline] \<and> P t)" for P
    by (cases s rule: rev_cases) auto
  then show ?thesis
    by (simp add: validate_input_def match_anchored_def fullmatch_lang lang_pattern)
qed

subsection \<open>Parsing\<close>

lemma replace_scan_absent: "x \<in> set old \<Longrightarrow> x \<notin> set s \<Longrightarrow> replace_scan old new s = s"
proof (induction s)
  case Nil
  then show ?case by simp
next
  case (Cons c cs)
  have "\<not> prefix old (c # cs)"
  proof
    assume "prefix old (c # cs)"
    then have "set old \<subseteq> set (c # cs)" by (rule set_mono_prefix)
    with Cons.prems show False by blast
  qed
  with Cons show ?case by simp
qed

lemma no_prefix_absent: "x \<in> set p \<Longrightarrow> x \<notin> set s \<Longrightarrow> \<not> prefix p s"
  using set_mono_prefix by fastforce

lemma unscheme:
  assumes "scheme \<in> {[], ''http://'', ''https://''}" and "CHR '':'' \<notin> set rest"
  shows "replace (replace (scheme @ rest) ''http://'' []) ''https://'' [] = rest"
    and "strip_scheme (scheme @ rest) = rest"
proof -
  have a: "replace_scan ''http://'' [] rest = rest" "replace_scan ''https://'' [] rest = rest"
    using assms(2) by (simp_all add: replace_scan_absent [of "CHR '':''"])
  have b: "\<not> prefix ''http://'' rest" "\<not> prefix ''https://'' rest"
    using assms(2) by (simp_all add: no_prefix_absent [of "CHR '':''"])
  from assms(1) consider "scheme = []" | "scheme = ''http://''" | "scheme = ''https://''"
    by blast
  then show "replace (replace (scheme @ rest) ''http://'' []) ''https://'' [] = rest"
    by cases (simp_all add: replace_def a)
  from assms(1) consider "scheme = []" | "scheme = ''http://''" | "scheme = ''https://''"
    by blast
  then show "strip_scheme (scheme @ rest) = rest"
    by cases (simp_all add: strip_scheme_def b)
qed

lemma split1_pair:
  "(let parts = split1 t sep in (hd parts, if length parts > 1 then parts ! 1 else []))
     = (takeWhile (\<lambda>c. c \<noteq> sep) t, drop 1 (dropWhile (\<lambda>c. c \<noteq> sep) t))"
proof (cases "sep \<in> set t")
  case True
  then show ?thesis by (simp add: split1_def drop_Suc)
next
  case False
  then have tw: "takeWhile (\<lambda>c. c \<noteq> sep) t = t" by (auto simp: takeWhile_eq_all_conv)
  from False have dw: "dropWhile (\<lambda>c. c \<noteq> sep) t = []" by auto
  from False show ?thesis unfolding split1_def tw dw by simp
qed

lemma parse_input_schemed:
  assumes "scheme \<in> {[], ''http://'', ''https://''}" and "CHR '':'' \<notin> set rest"
  shows "parse_input (scheme @ rest) = parse_spec (scheme @ rest)"
proof -
  have "parse_input (scheme @ rest) =
      (let parts = split1 (strip_chars rest ''/'') (CHR ''/'')
       in (hd parts, if length parts > 1 then parts ! 1 else []))"
    by (simp add: parse_input_def unscheme(1) [OF assms] Let_def)
  also have "\<dots> = parse_spec (scheme @ rest)"
    unfolding split1_pair
    by (simp add: parse_spec_def normalise_def unscheme(2) [OF assms] Let_def)
  finally show ?thesis .
qed

lemma not_label_colon: "\<not> label_char (CHR '':'')" "\<not> path_char (CHR '':'')"
  "\<not> label_char (CHR ''/'')" "\<not> label_char (CHR ''.'')" "\<not> path_char (CHR ''.'')"
  by (simp_all add: label_char_def path_char_def alnum_def)

lemma grammar_shape:
  assumes "address_grammar s"
  shows "\<exists>scheme rest. s = scheme @ rest \<and> scheme \<in> {[], ''http://'', ''https://''} \<and>
           CHR '':'' \<notin> set rest \<and> CHR ''.'' \<in> set rest"
proof -
  from assms obtain scheme labels tld path where g:
    "s = scheme @ concat (map (\<lambda>l. l @ ''.'') labels) @ tld @ path"
    "scheme \<in> {[], ''http://'', ''https://''}"
    "labels \<noteq> []" "\<forall>l\<in>set labels. l \<noteq> [] \<and> (\<forall>c\<in>set l. label_char c)"
    "tld \<in> {''com'', ''co.uk'', ''org''}"
    "path = [] \<or> (\<exists>p. path = CHR ''/'' # p \<and> (\<forall>c\<in>set p. path_char c))"
    unfolding address_grammar_def by blast
  let ?hosts = "concat (map (\<lambda>l. l @ ''.'') labels)"
  have h: "CHR '':'' \<notin> set ?hosts" using g(4) not_label_colon(1) by auto
  have t: "CHR '':'' \<notin> set tld" using g(5) by auto
  have p: "CHR '':'' \<notin> set path" using g(6) not_label_colon(2) by auto
  have d: "CHR ''.'' \<in> set ?hosts" using g(3) by (cases labels) auto
  have "s = scheme @ (?hosts @ tld @ path)" using g(1) by simp
  moreover have "CHR '':'' \<notin> set (?hosts @ tld @ path)" using h t p by simp
  moreover have "CHR ''.'' \<in> set (?hosts @ tld @ path)" using d by simp
  ultimately show ?thesis using g(2) by blast
qed

lemma validated_shape:
  assumes "validate_input s"
  shows "\<exists>scheme rest. s = scheme @ rest \<and> scheme \<in> {[], ''http://'', ''https://''} \<and>
           CHR '':'' \<notin> set rest \<and> CHR ''.'' \<in> set rest"
proof -
  from assms consider "address_grammar s" | t where "s = t @ [newline]" "address_grammar t"
    unfolding validate_input_iff by blast
  then show ?thesis
  proof cases
    case 1
    then show ?thesis by (rule grammar_shape)
  next
    case 2
    from grammar_shape [OF 2(2)] obtain scheme rest where
      "t = scheme @ rest" "scheme \<in> {[], ''http://'', ''https://''}"
      "CHR '':'' \<notin> set rest" "CHR ''.'' \<in> set rest" by blast
    then have "s = scheme @ (rest @ [newline])" "CHR '':'' \<notin> set (rest @ [newline])"
      "CHR ''.'' \<in> set (rest @ [newline])"
      using 2(1) by (simp_all add: newline_def)
    with \<open>scheme \<in> _\<close> show ?thesis by blast
  qed
qed

lemma parse_input_validated: "validate_input s \<Longrightarrow> parse_input s = parse_spec s"
  using validated_shape parse_input_schemed by blast

lemma hd_rev_dropWhile_rev:
  "rev (dropWhile P (rev u)) \<noteq> [] \<Longrightarrow> hd (rev (dropWhile P (rev u))) = hd u"
proof (induction u rule: rev_induct)
  case Nil
  then show ?case by simp
next
  case (snoc x xs)
  show ?case
  proof (cases "P x")
    case True
    with snoc have "hd (rev (dropWhile P (rev xs))) = hd xs" "xs \<noteq> []" by auto
    with True show ?thesis by simp
  next
    case False
    then show ?thesis by simp
  qed
qed

lemma strip_ends:
  "rev (dropWhile P (rev (dropWhile P s))) = [] \<or>
   (\<not> P (hd (rev (dropWhile P (rev (dropWhile P s))))) \<and>
    \<not> P (last (rev (dropWhile P (rev (dropWhile P s))))))"
proof (cases "rev (dropWhile P (rev (dropWhile P s))) = []")
  case True
  then show ?thesis by simp
next
  case n: False
  then have "dropWhile P s \<noteq> []" by (cases "dropWhile P s") auto
  then have "\<not> P (hd (dropWhile P s))" by (rule hd_dropWhile)
  moreover have "hd (rev (dropWhile P (rev (dropWhile P s)))) = hd (dropWhile P s)"
    using n by (rule hd_rev_dropWhile_rev)
  ultimately have h: "\<not> P (hd (rev (dropWhile P (rev (dropWhile P s)))))" by simp
  from n have m: "dropWhile P (rev (dropWhile P s)) \<noteq> []" by simp
  then have "\<not> P (hd (dropWhile P (rev (dropWhile P s))))" by (rule hd_dropWhile)
  moreover have "last (rev (dropWhile P (rev (dropWhile P s)))) =
      hd (dropWhile P (rev (dropWhile P s)))"
    using m by (simp add: last_rev)
  ultimately show ?thesis using h by simp
qed

lemma strip_chars_ends:
  "strip_chars s cs = [] \<or> (hd (strip_chars s cs) \<notin> set cs \<and> last (strip_chars s cs) \<notin> set cs)"
  unfolding strip_chars_def by (rule strip_ends)

lemma strip_chars_fixed:
  assumes "t = [] \<or> (hd t \<notin> set cs \<and> last t \<notin> set cs)"
  shows "strip_chars t cs = t"
proof (cases "t = []")
  case True
  then show ?thesis by (simp add: strip_chars_def)
next
  case False
  with assms have h: "hd t \<notin> set cs" "last t \<notin> set cs" by simp_all
  have a: "dropWhile (\<lambda>c. c \<in> set cs) t = t"
    using h(1) False by (simp add: dropWhile_eq_self_iff)
  have "hd (rev t) \<notin> set cs" using h(2) False by (simp add: hd_rev)
  then have "dropWhile (\<lambda>c. c \<in> set cs) (rev t) = rev t"
    by (simp add: dropWhile_eq_self_iff)
  with a show ?thesis by (simp add: strip_chars_def)
qed

lemma strip_chars_subset: "set (strip_chars s cs) \<subseteq> set s"
proof -
  have d: "set (dropWhile P xs) \<subseteq> set xs" for P and xs :: string
    by (auto dest: set_dropWhileD)
  have "set (strip_chars s cs) = set (dropWhile (\<lambda>c. c \<in> set cs) (rev (dropWhile (\<lambda>c. c \<in> set cs) s)))"
    by (simp add: strip_chars_def)
  also have "\<dots> \<subseteq> set (rev (dropWhile (\<lambda>c. c \<in> set cs) s))" by (rule d)
  also have "\<dots> \<subseteq> set s" using d [of "\<lambda>c. c \<in> set cs" s] by simp
  finally show ?thesis .
qed

lemma rejoin_split:
  assumes "t = [] \<or> last t \<noteq> sep"
  shows "(let d = takeWhile (\<lambda>c. c \<noteq> sep) t; sp = drop 1 (dropWhile (\<lambda>c. c \<noteq> sep) t)
          in if sp = [] then d else d @ [sep] @ sp) = t"
proof (cases "sep \<in> set t")
  case False
  then have tw: "takeWhile (\<lambda>c. c \<noteq> sep) t = t" by (auto simp: takeWhile_eq_all_conv)
  from False have dw: "dropWhile (\<lambda>c. c \<noteq> sep) t = []" by auto
  show ?thesis unfolding tw dw by simp
next
  case True
  let ?d = "takeWhile (\<lambda>c. c \<noteq> sep) t" and ?r = "dropWhile (\<lambda>c. c \<noteq> sep) t"
  have r: "?r \<noteq> []" using True by simp
  then have "hd ?r = sep" using hd_dropWhile [of "\<lambda>c. c \<noteq> sep" t] by simp
  with r have rr: "?r = sep # drop 1 ?r" by (cases ?r) auto
  have t: "t = ?d @ ?r" by simp
  have "drop 1 ?r \<noteq> []"
  proof
    assume e: "drop 1 ?r = []"
    with rr have "?r = [sep]" by simp
    with t have "t = ?d @ [sep]" by simp
    then have "last t = last (?d @ [sep])" "t \<noteq> []" by auto
    then have "last t = sep" "t \<noteq> []" by simp_all
    with assms show False by simp
  qed
  moreover have "?d @ [sep] @ drop 1 ?r = ?d @ ?r" using rr by simp
  then have "?d @ [sep] @ drop 1 ?r = t" by simp
  ultimately show ?thesis by (simp add: Let_def)
qed

lemma normalise_ends:
  "normalise s = [] \<or> (hd (normalise s) \<noteq> CHR ''/'' \<and> last (normalise s) \<noteq> CHR ''/'')"
  using strip_chars_ends [of "strip_scheme s" "''/''"] by (simp add: normalise_def)

lemma rejoin_parse_spec: "rejoin (parse_spec s) = normalise s"
proof -
  have "normalise s = [] \<or> last (normalise s) \<noteq> CHR ''/''" using normalise_ends by blast
  from rejoin_split [OF this] show ?thesis by (simp add: parse_spec_def Let_def)
qed

lemma parse_input_normal:
  assumes "scheme \<in> {[], ''http://'', ''https://''}" and "CHR '':'' \<notin> set rest"
  shows "parse_input (normalise (scheme @ rest)) = parse_input (scheme @ rest)"
proof -
  let ?t = "normalise (scheme @ rest)"
  have t: "?t = strip_chars rest ''/''" by (simp add: normalise_def unscheme(2) [OF assms])
  then have c: "CHR '':'' \<notin> set ?t" using strip_chars_subset [of rest "''/''"] assms(2) by auto
  have "parse_input ([] @ ?t) = parse_spec ([] @ ?t)"
    by (rule parse_input_schemed) (simp_all add: c)
  moreover have "strip_scheme ([] @ ?t) = ?t" by (rule unscheme(2)) (simp_all add: c)
  then have "normalise ?t = ?t"
    using strip_chars_fixed [of ?t "''/''"] normalise_ends [of "scheme @ rest"]
    by (simp add: normalise_def)
  then have "parse_spec ?t = parse_spec (scheme @ rest)" by (simp add: parse_spec_def)
  ultimately show ?thesis using parse_input_schemed [OF assms] by simp
qed

lemma lower_char_dot: "lower_char (CHR ''.'') = CHR ''.''"
  by (simp add: lower_char_def)

lemma validated_not_start:
  assumes "validate_input s"
  shows "lower s \<notin> set [''start'', ''websites/start'']"
proof
  assume a: "lower s \<in> set [''start'', ''websites/start'']"
  from validated_shape [OF assms] have "CHR ''.'' \<in> set s" by auto
  then have "lower_char (CHR ''.'') \<in> set (lower s)" unfolding lower_def by simp
  then have "CHR ''.'' \<in> set (lower s)" by (simp add: lower_char_dot)
  with a show False by auto
qed

lemma grammar_fullmatch: "address_grammar s = fullmatch pattern s"
  by (simp add: fullmatch_lang lang_pattern)

lemma takeWhile_domain:
  assumes "CHR ''/'' \<notin> set d"
  shows "takeWhile (\<lambda>c. c \<noteq> CHR ''/'') (d @ CHR ''/'' # r) = d"
    and "dropWhile (\<lambda>c. c \<noteq> CHR ''/'') (d @ CHR ''/'' # r) = CHR ''/'' # r"
  using assms by (induction d) auto

lemma parse_spec_domain: "CHR ''/'' \<notin> set (fst (parse_spec s))"
proof -
  have "x \<in> set (takeWhile P xs) \<Longrightarrow> P x" for x :: char and P xs
    by (rule set_takeWhileD [THEN conjunct2])
  then show ?thesis unfolding parse_spec_def Let_def fst_conv by blast
qed

subsection \<open>Handlers and steps\<close>

lemma base_host: "GITHUB_BASE = static_host @ ''/''"
  by (simp add: GITHUB_BASE_def static_host_def)

lemma rewritten_target_base: "\<exists>r. rewritten_target a = GITHUB_BASE @ r"
  by (cases a) (simp add: rewritten_target_def base_host)

lemma startswith_base: "startswith (GITHUB_BASE @ r) GITHUB_BASE"
  by (simp add: startswith_def)

lemma startswith_target: "startswith (rewritten_target a) GITHUB_BASE"
  using rewritten_target_base [of a] startswith_base by auto

lemma not_validate_empty: "\<not> validate_input []"
  by code_simp

lemma load_page_cases:
  "load_page text =
     (if lower (strip text) \<in> {''start'', ''websites/start''} then [SetUrl START_PAGE]
      else if \<not> validate_input (strip text) then [SetHtml (error_html ''Invalid domain format'')]
      else [SetVirtualUrl (rejoin (parse_input (strip text))),
            SetUrl (rewritten_target (parse_input (strip text))),
            SetTabText (fst (parse_input (strip text)))])"
  by (cases "parse_input (strip text)")
     (simp add: load_page_def Let_def show_custom_404_def rewritten_target_def base_host)

lemma scheme_match_spec:
  "scheme_match url =
     (if (prefix ''http://'' url \<or> prefix ''https://'' url) \<and> first_line (strip_scheme url) \<noteq> []
      then Some (first_line (strip_scheme url)) else None)"
proof -
  have "\<not> (prefix ''http://'' url \<and> prefix ''https://'' url)"
    by (auto simp: prefix_def)
  then show ?thesis
    by (auto simp: scheme_match_def strip_scheme_def first_line_def Let_def)
qed

lemma accept_cases:
  "acceptNavigationRequest url =
     (if startswith url GITHUB_BASE then ([], True)
      else if (prefix ''http://'' url \<or> prefix ''https://'' url) \<and>
              validate_input (first_line (strip_scheme url))
      then ([SetVirtualUrl (rejoin (parse_input (first_line (strip_scheme url)))),
             SetUrl (rewritten_target (parse_input (first_line (strip_scheme url))))], False)
      else ([], False))"
proof (cases "first_line (strip_scheme url) = []")
  case True
  then show ?thesis
    by (simp add: acceptNavigationRequest_def scheme_match_spec not_validate_empty)
next
  case False
  then show ?thesis
    by (cases "parse_input (first_line (strip_scheme url))")
       (simp add: acceptNavigationRequest_def scheme_match_spec Let_def rewritten_target_def
          base_host)
qed

lemma run_simps:
  "run [] v = v"
  "run (e # es) v = run es (apply_effect e v)"
  by (simp_all add: run_def)

lemma error_document_member: "error_html ''Page failed to load'' \<in> set error_documents"
  "error_html ''Page not found'' \<in> set error_documents"
  "error_html ''Invalid domain format'' \<in> set error_documents"
  by (simp_all add: error_documents_def)

lemma step_location:
  "location (step w e) = location w \<or> allowed_location (location (step w e))"
proof (cases e)
  case (NavigationRequest url is_main_frame)
  then show ?thesis
    by (simp add: step_def accept_cases run_simps allowed_location_def startswith_target Let_def)
next
  case UrlChanged
  then show ?thesis
    by (cases "location w") (simp_all add: step_def sync_virtual_url_def run_simps Let_def)
next
  case (LoadFinished success)
  then show ?thesis
    by (simp add: step_def check_load_success_def show_custom_404_def run_simps
        allowed_location_def error_document_member)
next
  case (TitleResult title)
  then show ?thesis
    by (cases title)
       (simp_all add: step_def check_title_for_404_def show_custom_404_def run_simps
          allowed_location_def error_document_member)
next
  case (TitleChanged title)
  then show ?thesis by (simp add: step_def update_tab_title_def run_simps)
next
  case (Submit input)
  then show ?thesis
    by (simp add: step_def load_page_cases run_simps allowed_location_def startswith_target
        error_document_member)
qed

lemma opened_location: "allowed_location (location (add_tab (Some START_PAGE)))"
  by (simp add: add_tab_def run_simps allowed_location_def START_PAGE_def GITHUB_BASE_def)

lemma first_line_no_newline: "newline \<notin> set url \<Longrightarrow> first_line (strip_scheme url) = strip_scheme url"
proof -
  assume n: "newline \<notin> set url"
  have "set (strip_scheme url) \<subseteq> set url"
    by (auto simp: strip_scheme_def dest: in_set_dropD)
  with n have "\<forall>c\<in>set (strip_scheme url). c \<noteq> newline" by blast
  then show ?thesis by (simp add: first_line_def takeWhile_eq_all_conv)
qed

lemma contains_nonempty: "contains t ''404'' \<Longrightarrow> t \<noteq> []"
  by (cases t) auto

subsection \<open>Replacing and the Virtual Address\<close>

lemma replace_scan_no_occurrence:
  "\<not> contains s old \<Longrightarrow> replace_scan old new s = s"
  by (induction s) auto

lemma replace_scan_prefix:
  assumes "old \<noteq> []"
  shows "replace_scan old new (old @ r) = new @ replace_scan old new r"
proof -
  from assms obtain x xs where o: "old = x # xs" by (cases old) auto
  then show ?thesis by simp
qed

lemma html_no_overlap:
  assumes "prefix ''.html'' (p @ ''.html'')" and "\<not> prefix ''.html'' p"
  shows "p = []"
proof -
  from assms obtain us where u: "''.html'' = p @ us" "prefix us ''.html''"
    unfolding prefix_append by blast
  show ?thesis
  proof (cases p)
    case Nil
    then show ?thesis .
  next
    case (Cons c cs)
    with u(1) have c: "c = CHR ''.''" and r: "''html'' = cs @ us" by simp_all
    from r have "set us \<subseteq> set ''html''" by (metis set_append sup_ge2)
    then have d: "CHR ''.'' \<notin> set us" by auto
    have "us \<noteq> []"
    proof
      assume "us = []"
      with u(1) have "p = ''.html''" by simp
      with assms(2) show False by simp
    qed
    then obtain y ys where y: "us = y # ys" by (cases us) auto
    with u(2) have "y = CHR ''.''" by simp
    with y d show ?thesis by simp
  qed
qed

lemma replace_scan_html_suffix:
  "\<not> contains p ''.html'' \<Longrightarrow> replace_scan ''.html'' [] (p @ ''.html'') = p"
proof (induction p)
  case Nil
  show ?case by simp
next
  case (Cons c cs)
  then have n: "\<not> prefix ''.html'' (c # cs)" and m: "\<not> contains cs ''.html''" by simp_all
  have "\<not> prefix ''.html'' ((c # cs) @ ''.html'')"
    using html_no_overlap [of "c # cs"] n by blast
  then have "replace_scan ''.html'' [] ((c # cs) @ ''.html'') =
      c # replace_scan ''.html'' [] (cs @ ''.html'')"
    by (simp del: prefix_code)
  with Cons.IH [OF m] show ?case by simp
qed

lemma replace_html:
  assumes "\<not> contains (strip_suffix r ''.html'') ''.html''"
  shows "replace r ''.html'' [] = strip_suffix r ''.html''"
proof (cases "suffix ''.html'' r")
  case True
  then obtain p where p: "r = p @ ''.html''" by (auto simp: suffix_def)
  from True have "strip_suffix r ''.html'' = take (length r - length ''.html'') r"
    by (simp add: strip_suffix_def)
  with p have "strip_suffix r ''.html'' = p" by simp
  with assms p show ?thesis by (simp add: replace_def replace_scan_html_suffix)
next
  case False
  with assms show ?thesis
    by (simp add: strip_suffix_def replace_def replace_scan_no_occurrence)
qed

lemma base_nonempty: "GITHUB_BASE \<noteq> []"
  by (simp add: GITHUB_BASE_def)

lemma sync_virtual_url_clean:
  assumes "startswith u GITHUB_BASE"
    and "\<not> contains (drop (length GITHUB_BASE) u) GITHUB_BASE"
    and "\<not> contains (strip_suffix (drop (length GITHUB_BASE) u) ''.html'') ''.html''"
  shows "sync_virtual_url u = [SetVirtualUrl (virtual_of u)]"
proof -
  let ?r = "drop (length GITHUB_BASE) u"
  from assms(1) have u: "u = GITHUB_BASE @ ?r"
    by (auto simp: startswith_def prefix_def)
  have "replace u GITHUB_BASE [] = replace_scan GITHUB_BASE [] (GITHUB_BASE @ ?r)"
    using u base_nonempty by (simp add: replace_def)
  also have "\<dots> = replace_scan GITHUB_BASE [] ?r"
    using replace_scan_prefix [OF base_nonempty, of "[]" ?r] by simp
  also have "\<dots> = ?r" using assms(2) by (rule replace_scan_no_occurrence)
  finally have "replace u GITHUB_BASE [] = ?r" .
  with assms(1) replace_html [OF assms(3)] show ?thesis
    by (simp add: sync_virtual_url_def Let_def virtual_of_def)
qed

subsection \<open>What the callers hand to validation, and the error document\<close>

lemma isspace_newline: "isspace newline"
  by (simp add: isspace_def newline_def)

lemma strip_no_final_newline: "strip t = [] \<or> last (strip t) \<noteq> newline"
  using strip_ends [of isspace t] isspace_newline unfolding strip_def by auto

lemma validate_no_final_newline:
  assumes "s = [] \<or> last s \<noteq> newline"
  shows "validate_input s = address_grammar s"
proof -
  have "\<not> (\<exists>t. s = t @ [newline] \<and> address_grammar t)"
  proof
    assume "\<exists>t. s = t @ [newline] \<and> address_grammar t"
    then obtain t where "s = t @ [newline]" by blast
    then have "s \<noteq> []" "last s = newline" by simp_all
    with assms show False by blast
  qed
  then show ?thesis unfolding validate_input_iff by blast
qed

lemma scheme_match_group:
  assumes "scheme_match u = Some g"
  shows "g \<noteq> []" and "newline \<notin> set g"
proof -
  from assms have g: "g = first_line (strip_scheme u)" "first_line (strip_scheme u) \<noteq> []"
    by (auto simp: scheme_match_spec split: if_splits)
  then show "g \<noteq> []" by simp
  have "x \<in> set (takeWhile P xs) \<Longrightarrow> P x" for x :: char and P xs
    by (rule set_takeWhileD [THEN conjunct2])
  then show "newline \<notin> set g" unfolding g(1) first_line_def by blast
qed

lemma contains_iff: "contains s p \<longleftrightarrow> (\<exists>a b. s = a @ p @ b)"
proof
  show "contains s p \<Longrightarrow> \<exists>a b. s = a @ p @ b"
  proof (induction s)
    case Nil
    then show ?case by simp
  next
    case (Cons c cs)
    from Cons.prems consider "prefix p (c # cs)" | "contains cs p" by auto
    then show ?case
    proof cases
      case 1
      then obtain b where "c # cs = p @ b" by (auto simp: prefix_def)
      then have "c # cs = [] @ p @ b" by simp
      then show ?thesis by blast
    next
      case 2
      with Cons.IH obtain a b where "cs = a @ p @ b" by blast
      then have "c # cs = (c # a) @ p @ b" by simp
      then show ?thesis by blast
    qed
  qed
next
  assume "\<exists>a b. s = a @ p @ b"
  then obtain a b where s: "s = a @ p @ b" by blast
  have "contains (a @ p @ b) p"
  proof (induction a)
    case Nil
    have pre: "prefix p (p @ b)" by simp
    show ?case
    proof (cases "p @ b")
      case Nil
      then show ?thesis by simp
    next
      case (Cons y ys)
      with pre have "prefix p (y # ys)" by simp
      with Cons show ?thesis by simp
    qed
  next
    case (Cons x xs)
    then show ?case by simp
  qed
  with s show "contains s p" by simp
qed

lemma join_holds: "l \<in> set ls \<Longrightarrow> \<exists>a b. join sep ls = a @ l @ b"
proof (induction sep ls rule: join.induct)
  case (1 sep)
  then show ?case by simp
next
  case (2 sep p)
  then have "join sep [p] = [] @ l @ []" by simp
  then show ?case by blast
next
  case (3 sep p q ps)
  show ?case
  proof (cases "l = p")
    case True
    then have "join sep (p # q # ps) = [] @ l @ (sep @ join sep (q # ps))" by simp
    then show ?thesis by blast
  next
    case False
    with 3 obtain a b where "join sep (q # ps) = a @ l @ b" by auto
    then have "join sep (p # q # ps) = (p @ sep @ a) @ l @ b" by simp
    then show ?thesis by blast
  qed
qed

lemma error_html_holds: "contains (error_html m) m"
proof -
  have "''                <p>'' @ m @ ''</p>'' \<in> set
     [[],
      ''        <html>'',
      ''            <head>'',
      ''                <style>'',
      ''                    body {'',
      ''                        background-color: #111;'',
      ''                        color: white;'',
      ''                        font-family: Arial;'',
      ''                        text-align: center;'',
      ''                        margin-top: 15%;'',
      ''                    }'',
      ''                    h1 {'',
      ''                        font-size: 60px;'',
      ''                        color: red;'',
      ''                    }'',
      ''                    p {'',
      ''                        font-size: 20px;'',
      ''                        color: #ccc;'',
      ''                    }'',
      ''                </style>'',
      ''            </head>'',
      ''            <body>'',
      ''                <h1>404</h1>'',
      ''                <p>'' @ m @ ''</p>'',
      ''                <p>The requested site does not exist.</p>'',
      ''            </body>'',
      ''        </html>'',
      ''        '']"
    by (simp del: append_Cons append_Nil)
  from join_holds [OF this, of "[newline]"] obtain a b
    where "error_html m = a @ (''                <p>'' @ m @ ''</p>'') @ b"
    unfolding error_html_def by blast
  then have "error_html m = (a @ ''                <p>'') @ m @ (''</p>'' @ b)" by simp
  then show ?thesis unfolding contains_iff by blast
qed

section \<open>The claims\<close>

subsection \<open>Locations of a view\<close>

text \<open>
  C1: in every reachable state of a view the loaded location is the start page, a locator
  under the base locator of the static host, or one of the error documents made in memory;
  and from any state whatever, every event (a decision of the interceptor, a submission of
  the address bar, a finished load, a title result) either leaves the location as it is or
  sets it to such a location.
\<close>

theorem location_invariant:
  "(reachable v \<longrightarrow> allowed_location (location v)) \<and>
   (\<forall>w e. location (step w e) = location w \<or> allowed_location (location (step w e)))"
proof
  show "reachable v \<longrightarrow> allowed_location (location v)"
  proof
    assume "reachable v"
    then show "allowed_location (location v)"
    proof (induction rule: reachable.induct)
      case opened
      show ?case by (rule opened_location)
    next
      case (stepped v e)
      with step_location [of v e] show ?case by auto
    qed
  qed
  show "\<forall>w e. location (step w e) = location w \<or> allowed_location (location (step w e))"
    using step_location by blast
qed

theorem location_invariant_witness:
  "reachable (step (step (add_tab (Some START_PAGE)) (Submit ''example.com''))
      (NavigationRequest ''https://malicious.test/'' True)) \<and>
   allowed_location (location (step (step (add_tab (Some START_PAGE)) (Submit ''example.com''))
      (NavigationRequest ''https://malicious.test/'' True)))"
proof -
  have r: "reachable (step (step (add_tab (Some START_PAGE)) (Submit ''example.com''))
      (NavigationRequest ''https://malicious.test/'' True))"
    by (intro reachable.intros)
  with location_invariant show ?thesis by blast
qed

subsection \<open>The decision of the interceptor\<close>

text \<open>
  C2: a navigation target is the string of a locator, which holds no raw line feed. For
  every such target: a target under the base locator is allowed with no effect and is not
  rewritten again. Otherwise, when the target starts with \<open>http://\<close> or \<open>https://\<close> and
  the remainder after the scheme passes validation, the navigation is cancelled, the Virtual
  Address is set and then the load of the Rewritten Target is issued, in this order, and that
  target is itself allowed. In every other case the navigation is cancelled with no effect
  on the view.
\<close>

theorem interceptor_decision:
  assumes "newline \<notin> set url"
  shows
  "(startswith url GITHUB_BASE \<longrightarrow> acceptNavigationRequest url = ([], True)) \<and>
   (\<not> startswith url GITHUB_BASE \<and> (prefix ''http://'' url \<or> prefix ''https://'' url) \<and>
    validate_input (strip_scheme url) \<longrightarrow>
      acceptNavigationRequest url =
        ([SetVirtualUrl (rejoin (parse_input (strip_scheme url))),
          SetUrl (rewritten_target (parse_input (strip_scheme url)))], False) \<and>
      acceptNavigationRequest (rewritten_target (parse_input (strip_scheme url))) =
        ([], True)) \<and>
   (\<not> startswith url GITHUB_BASE \<and>
    \<not> ((prefix ''http://'' url \<or> prefix ''https://'' url) \<and>
       validate_input (strip_scheme url)) \<longrightarrow>
      acceptNavigationRequest url = ([], False) \<and>
      run (fst (acceptNavigationRequest url)) v = v)"
proof -
  have t: "acceptNavigationRequest (rewritten_target a) = ([], True)" for a
    by (simp add: accept_cases startswith_target)
  show ?thesis
    by (simp add: accept_cases [of url] first_line_no_newline [OF assms] t run_simps)
qed

theorem interceptor_decision_witness:
  "startswith ''https://datlittladucky.github.io/Websites/example/index.html'' GITHUB_BASE \<and>
   acceptNavigationRequest ''https://datlittladucky.github.io/Websites/example/index.html'' =
     ([], True) \<and>
   validate_input (strip_scheme ''https://example.com/foo/bar'') \<and>
   acceptNavigationRequest ''https://example.com/foo/bar'' =
     ([SetVirtualUrl ''example.com/foo/bar'',
       SetUrl ''https://datlittladucky.github.io/Websites/example.com/foo/bar.html''], False) \<and>
   acceptNavigationRequest ''https://datlittladucky.github.io/Websites/example.com/foo/bar.html'' =
     ([], True) \<and>
   \<not> validate_input (strip_scheme ''https://malicious.test/'') \<and>
   acceptNavigationRequest ''https://malicious.test/'' = ([], False)"
proof -
  have a: "startswith ''https://datlittladucky.github.io/Websites/example/index.html'' GITHUB_BASE"
    "newline \<notin> set ''https://datlittladucky.github.io/Websites/example/index.html''"
    by code_simp+
  have b: "\<not> startswith ''https://example.com/foo/bar'' GITHUB_BASE"
    "prefix ''http://'' ''https://example.com/foo/bar'' \<or>
     prefix ''https://'' ''https://example.com/foo/bar''"
    "validate_input (strip_scheme ''https://example.com/foo/bar'')"
    "newline \<notin> set ''https://example.com/foo/bar''"
    by code_simp+
  have c: "\<not> startswith ''https://malicious.test/'' GITHUB_BASE"
    "\<not> validate_input (strip_scheme ''https://malicious.test/'')"
    "newline \<notin> set ''https://malicious.test/''"
    by code_simp+
  have p: "parse_input (strip_scheme ''https://example.com/foo/bar'') = (''example.com'', ''foo/bar'')"
    by code_simp
  have r: "rewritten_target (''example.com'', ''foo/bar'') =
      ''https://datlittladucky.github.io/Websites/example.com/foo/bar.html''"
    "rejoin (''example.com'', ''foo/bar'') = ''example.com/foo/bar''"
    by code_simp+
  from interceptor_decision [OF a(2)] a(1)
  have 1: "acceptNavigationRequest ''https://datlittladucky.github.io/Websites/example/index.html'' =
     ([], True)" by blast
  from interceptor_decision [OF b(4)] b(1,2,3)
  have 2: "acceptNavigationRequest ''https://example.com/foo/bar'' =
        ([SetVirtualUrl (rejoin (parse_input (strip_scheme ''https://example.com/foo/bar''))),
          SetUrl (rewritten_target (parse_input (strip_scheme ''https://example.com/foo/bar'')))], False) \<and>
      acceptNavigationRequest (rewritten_target (parse_input (strip_scheme ''https://example.com/foo/bar''))) =
        ([], True)"
    by blast
  from interceptor_decision [OF c(3)] c(1,2)
  have 3: "acceptNavigationRequest ''https://malicious.test/'' = ([], False)" by blast
  from a(1) b(3) c(2) 1 2 3 show ?thesis unfolding p r by blast
qed

subsection \<open>Synchronising the Virtual Address\<close>

text \<open>
  C3, as stated, fails in both parts: for a locator outside the static host the Virtual
  Address keeps its value and is not empty afterwards; and for a locator under the static
  host \<open>.html\<close> is removed wherever it occurs, not only as the suffix.
\<close>

theorem sync_virtual_url_counterexample:
  "\<not> startswith ''about:blank'' GITHUB_BASE \<and>
   virtual_url (run (sync_virtual_url ''about:blank'')
     \<lparr>location = Document (error_html ''Invalid domain format''), virtual_url = ''example.com'',
      tab_text = ''example.com''\<rparr>) = ''example.com'' \<and>
   startswith ''https://datlittladucky.github.io/Websites/a.html/b.html'' GITHUB_BASE \<and>
   sync_virtual_url ''https://datlittladucky.github.io/Websites/a.html/b.html'' =
     [SetVirtualUrl ''a/b''] \<and>
   virtual_of ''https://datlittladucky.github.io/Websites/a.html/b.html'' = ''a.html/b''"
  by code_simp

text \<open>
  C3, amended: for a locator under the static host in which the base locator does not occur
  again after the prefix and \<open>.html\<close> occurs at most once, as the suffix, the Virtual
  Address becomes the locator without the host prefix, without the suffix \<open>.html\<close> and
  without the slashes at its ends; for a locator that is not under the static host the
  view, and with it the Virtual Address, is left as it was.
\<close>

theorem sync_virtual_url_spec:
  "(startswith u GITHUB_BASE \<and> \<not> contains (drop (length GITHUB_BASE) u) GITHUB_BASE \<and>
    \<not> contains (strip_suffix (drop (length GITHUB_BASE) u) ''.html'') ''.html'' \<longrightarrow>
      sync_virtual_url u = [SetVirtualUrl (virtual_of u)] \<and>
      run (sync_virtual_url u) v = v\<lparr>virtual_url := virtual_of u\<rparr>) \<and>
   (\<not> startswith u GITHUB_BASE \<longrightarrow> sync_virtual_url u = [] \<and> run (sync_virtual_url u) v = v)"
  using sync_virtual_url_clean [of u]
  by (auto simp: run_simps sync_virtual_url_def)

theorem sync_virtual_url_spec_witness:
  "startswith ''https://datlittladucky.github.io/Websites/example.com/foo/bar.html'' GITHUB_BASE \<and>
   sync_virtual_url ''https://datlittladucky.github.io/Websites/example.com/foo/bar.html'' =
     [SetVirtualUrl ''example.com/foo/bar''] \<and>
   \<not> startswith ''about:blank'' GITHUB_BASE \<and>
   run (sync_virtual_url ''about:blank'') (add_tab (Some START_PAGE)) = add_tab (Some START_PAGE)"
proof -
  let ?u = "''https://datlittladucky.github.io/Websites/example.com/foo/bar.html''"
  have a: "startswith ?u GITHUB_BASE" "\<not> contains (drop (length GITHUB_BASE) ?u) GITHUB_BASE"
    "\<not> contains (strip_suffix (drop (length GITHUB_BASE) ?u) ''.html'') ''.html''"
    by code_simp+
  have b: "virtual_of ?u = ''example.com/foo/bar''" by code_simp
  have c: "\<not> startswith ''about:blank'' GITHUB_BASE" by code_simp
  from sync_virtual_url_spec [of ?u] a
  have 1: "sync_virtual_url ?u = [SetVirtualUrl (virtual_of ?u)]" by blast
  from sync_virtual_url_spec [of "''about:blank''" "add_tab (Some START_PAGE)"] c
  have 2: "run (sync_virtual_url ''about:blank'') (add_tab (Some START_PAGE)) =
      add_tab (Some START_PAGE)" by blast
  from a(1) 1 c 2 show ?thesis unfolding b by blast
qed

subsection \<open>Validation\<close>

text \<open>
  C4: on every string that reaches it, \<open>validate_input\<close> holds exactly for the strings of
  the address grammar. The address bar hands over the stripped text, the interceptor the
  group of its pattern; neither ends in a line feed, and on every string that does not end
  in a line feed \<open>validate_input\<close> and the grammar agree. In particular the empty input, a
  wrong ending such as \<open>.net\<close>, a missing host, a character that is not allowed and a
  scheme other than \<open>http\<close> and \<open>https\<close> are refused.
\<close>

theorem validate_input_grammar:
  "validate_input (strip t) = address_grammar (strip t) \<and>
   (scheme_match u = Some g \<longrightarrow> validate_input g = address_grammar g) \<and>
   (s = [] \<or> last s \<noteq> newline \<longrightarrow> validate_input s = address_grammar s) \<and>
   \<not> validate_input [] \<and> \<not> validate_input ''example.net'' \<and> \<not> validate_input ''.com'' \<and>
   \<not> validate_input ''exam ple.com'' \<and> \<not> validate_input ''ftp://example.com'' \<and>
   validate_input ''example.com''"
proof -
  have a: "validate_input (strip t) = address_grammar (strip t)"
    using strip_no_final_newline by (rule validate_no_final_newline)
  have b: "validate_input g = address_grammar g" if "scheme_match u = Some g"
  proof (rule validate_no_final_newline)
    from scheme_match_group [OF that] have "g \<noteq> []" "newline \<notin> set g" by simp_all
    then have "last g \<in> set g" "newline \<notin> set g" by simp_all
    then show "g = [] \<or> last g \<noteq> newline" by metis
  qed
  have c: "\<not> validate_input []" "\<not> validate_input ''example.net''" "\<not> validate_input ''.com''"
    "\<not> validate_input ''exam ple.com''" "\<not> validate_input ''ftp://example.com''"
    "validate_input ''example.com''"
    by code_simp+
  from a b c validate_no_final_newline [of s] show ?thesis by blast
qed

theorem validate_input_grammar_witness:
  "validate_input (strip '' sub.example.co.uk/a_b/ '') \<and>
   address_grammar (strip '' sub.example.co.uk/a_b/ '') \<and>
   scheme_match ''https://example.net/x'' = Some ''example.net/x'' \<and>
   \<not> validate_input ''example.net/x'' \<and> \<not> address_grammar ''example.net/x'' \<and>
   last ''example.org'' \<noteq> newline \<and> validate_input ''example.org'' \<and>
   address_grammar ''example.org''"
proof -
  have a: "validate_input (strip '' sub.example.co.uk/a_b/ '')"
    "scheme_match ''https://example.net/x'' = Some ''example.net/x''"
    "\<not> validate_input ''example.net/x''"
    "last ''example.org'' \<noteq> newline" "validate_input ''example.org''"
    by code_simp+
  from validate_input_grammar [of "'' sub.example.co.uk/a_b/ ''"] a(1)
  have 1: "address_grammar (strip '' sub.example.co.uk/a_b/ '')" by blast
  from validate_input_grammar [of _ "''https://example.net/x''" "''example.net/x''"] a(2,3)
  have 2: "\<not> address_grammar ''example.net/x''" by blast
  from validate_input_grammar [of _ _ _ "''example.org''"] a(4,5)
  have 3: "address_grammar ''example.org''" by blast
  from a 1 2 3 show ?thesis by blast
qed

subsection \<open>Parsing\<close>

text \<open>
  C5: \<open>parse_input\<close> strips the leading scheme, strips the slashes at both ends and splits
  at the first slash, with an empty sub-path when there is no slash; the domain holds no
  slash, and the domain and the sub-path put together with a slash are the stripped input,
  so the rest of the path is kept as it is. This holds for every input made of an optional
  leading scheme and a rest without a colon, and so for every input that \<open>validate_input\<close>
  accepts, which are the inputs the callers parse.
\<close>

theorem parse_input_spec:
  "(scheme \<in> {[], ''http://'', ''https://''} \<and> CHR '':'' \<notin> set rest \<longrightarrow>
      parse_input (scheme @ rest) = parse_spec (scheme @ rest) \<and>
      CHR ''/'' \<notin> set (fst (parse_input (scheme @ rest))) \<and>
      rejoin (parse_input (scheme @ rest)) = normalise (scheme @ rest)) \<and>
   (validate_input s \<longrightarrow>
      parse_input s = parse_spec s \<and> CHR ''/'' \<notin> set (fst (parse_input s)) \<and>
      rejoin (parse_input s) = normalise s)"
proof -
  have g: "parse_input x = parse_spec x \<and> CHR ''/'' \<notin> set (fst (parse_input x)) \<and>
      rejoin (parse_input x) = normalise x" if "parse_input x = parse_spec x" for x
    using that parse_spec_domain [of x] rejoin_parse_spec [of x] by simp
  have a: "parse_input (scheme @ rest) = parse_spec (scheme @ rest)"
    if "scheme \<in> {[], ''http://'', ''https://''}" "CHR '':'' \<notin> set rest"
    using that by (rule parse_input_schemed)
  from g [OF a] g [OF parse_input_validated, of s] show ?thesis by blast
qed

theorem parse_input_spec_witness:
  "parse_input ''/a.com/x//y/'' = (''a.com'', ''x//y'') \<and>
   parse_spec ''/a.com/x//y/'' = (''a.com'', ''x//y'') \<and>
   normalise ''/a.com/x//y/'' = ''a.com/x//y'' \<and>
   validate_input ''https://example.com/foo//bar/'' \<and>
   parse_input ''https://example.com/foo//bar/'' = (''example.com'', ''foo//bar'') \<and>
   parse_spec ''https://example.com/foo//bar/'' = (''example.com'', ''foo//bar'') \<and>
   parse_input ''example.com'' = (''example.com'', [])"
proof -
  have a: "[] \<in> {[], ''http://'', ''https://''}" "CHR '':'' \<notin> set ''/a.com/x//y/''"
    by simp_all
  have p: "parse_input ''/a.com/x//y/'' = (''a.com'', ''x//y'')"
    "normalise ''/a.com/x//y/'' = ''a.com/x//y''" by code_simp+
  have v: "validate_input ''https://example.com/foo//bar/''" by code_simp
  have q: "parse_input ''https://example.com/foo//bar/'' = (''example.com'', ''foo//bar'')"
    "parse_input ''example.com'' = (''example.com'', [])" by code_simp+
  from parse_input_spec [of "[]" "''/a.com/x//y/''"] a
  have 1: "parse_input ([] @ ''/a.com/x//y/'') = parse_spec ([] @ ''/a.com/x//y/'')" by blast
  from parse_input_spec [of _ _ "''https://example.com/foo//bar/''"] v
  have 2: "parse_input ''https://example.com/foo//bar/'' =
      parse_spec ''https://example.com/foo//bar/''" by blast
  from 1 have 3: "parse_spec ''/a.com/x//y/'' = (''a.com'', ''x//y'')" using p(1) by simp
  from 2 have 4: "parse_spec ''https://example.com/foo//bar/'' = (''example.com'', ''foo//bar'')"
    using q(1) by simp
  from p v q 3 4 show ?thesis by blast
qed

subsection \<open>Detecting pages that are not found\<close>

text \<open>
  C6: when a load finishes with failure the view shows the error document with the message
  \<open>Page failed to load\<close>; when it finishes with success the title of the document is asked
  for and nothing else changes; when the title that comes back contains \<open>404\<close> the view
  shows the error document with the message \<open>Page not found\<close>, and otherwise the view is
  left as it is. The error document holds its message, each of the two documents holds its
  own message and not the other's, and the two documents differ.
\<close>

theorem not_found_detection:
  "location (step v (LoadFinished False)) = Document (error_html ''Page failed to load'') \<and>
   check_load_success True = [RunJavaScript ''document.title''] \<and>
   step v (LoadFinished True) = v \<and>
   (contains t ''404'' \<longrightarrow>
      check_title_for_404 (Some t) = [SetHtml (error_html ''Page not found'')] \<and>
      location (step v (TitleResult (Some t))) = Document (error_html ''Page not found'')) \<and>
   (\<not> contains t ''404'' \<longrightarrow> step v (TitleResult (Some t)) = v) \<and>
   step v (TitleResult None) = v \<and>
   contains (error_html ''Page failed to load'') ''<p>Page failed to load</p>'' \<and>
   contains (error_html ''Page not found'') ''<p>Page not found</p>'' \<and>
   \<not> contains (error_html ''Page failed to load'') ''Page not found'' \<and>
   \<not> contains (error_html ''Page not found'') ''Page failed to load'' \<and>
   error_html ''Page failed to load'' \<noteq> error_html ''Page not found'' \<and>
   contains (error_html m) m"
proof -
  have d: "contains (error_html ''Page failed to load'') ''<p>Page failed to load</p>''"
    "contains (error_html ''Page not found'') ''<p>Page not found</p>''"
    "\<not> contains (error_html ''Page failed to load'') ''Page not found''"
    "\<not> contains (error_html ''Page not found'') ''Page failed to load''"
    by code_simp+
  have "contains (error_html ''Page not found'') ''Page not found''" by (rule error_html_holds)
  with d(3) have e: "error_html ''Page failed to load'' \<noteq> error_html ''Page not found''"
    by auto
  have f: "contains (error_html m) m" by (rule error_html_holds)
  have g: "location (step v (LoadFinished False)) = Document (error_html ''Page failed to load'') \<and>
   check_load_success True = [RunJavaScript ''document.title''] \<and>
   step v (LoadFinished True) = v \<and>
   (contains t ''404'' \<longrightarrow>
      check_title_for_404 (Some t) = [SetHtml (error_html ''Page not found'')] \<and>
      location (step v (TitleResult (Some t))) = Document (error_html ''Page not found'')) \<and>
   (\<not> contains t ''404'' \<longrightarrow> step v (TitleResult (Some t)) = v) \<and>
   step v (TitleResult None) = v"
    using contains_nonempty [of t]
    by (auto simp: step_def check_load_success_def check_title_for_404_def show_custom_404_def
        run_simps)
  from d e f g show ?thesis by blast
qed

theorem not_found_detection_witness:
  "contains ''404 Not Found'' ''404'' \<and>
   location (step (add_tab (Some START_PAGE)) (TitleResult (Some ''404 Not Found''))) =
     Document (error_html ''Page not found'') \<and>
   \<not> contains ''Start'' ''404'' \<and>
   step (add_tab (Some START_PAGE)) (TitleResult (Some ''Start'')) = add_tab (Some START_PAGE)"
proof -
  have a: "contains ''404 Not Found'' ''404''" by code_simp
  have b: "\<not> contains ''Start'' ''404''" by code_simp
  from not_found_detection [of "add_tab (Some START_PAGE)" "''404 Not Found''"] a
  have 1: "location (step (add_tab (Some START_PAGE)) (TitleResult (Some ''404 Not Found''))) =
     Document (error_html ''Page not found'')" by blast
  from not_found_detection [of "add_tab (Some START_PAGE)" "''Start''"] b
  have 2: "step (add_tab (Some START_PAGE)) (TitleResult (Some ''Start'')) = add_tab (Some START_PAGE)"
    by blast
  from a b 1 2 show ?thesis by blast
qed

subsection \<open>Submitting the address bar\<close>

text \<open>
  C7, as stated, fails: \<open>START\<close> is not one of the two tokens and does not validate, yet the
  start page is loaded and no error document is shown, since the text is compared in lower
  case.
\<close>

theorem load_page_upper_case:
  "''START'' \<notin> {''start'', ''websites/start''} \<and> \<not> validate_input ''START'' \<and>
   load_page ''START'' = [SetUrl ''https://datlittladucky.github.io/Websites/start/index.html'']"
  by code_simp

text \<open>
  C7, amended: the entered text is first stripped of surrounding white space. When its
  lower-case form is \<open>start\<close> or \<open>websites/start\<close> the start page is loaded (in particular
  for these two tokens themselves). Otherwise, when the stripped text validates, the Virtual
  Address is set, the Rewritten Target is loaded and the tab is labelled with the domain.
  Otherwise the view shows the error document with the message \<open>Invalid domain format\<close>,
  no locator is loaded and the Virtual Address and the label of the tab are unchanged.
\<close>

theorem address_bar_submission:
  "(lower (strip input) \<in> {''start'', ''websites/start''} \<longrightarrow>
      load_page input = [SetUrl START_PAGE]) \<and>
   (lower (strip input) \<notin> {''start'', ''websites/start''} \<and> validate_input (strip input) \<longrightarrow>
      load_page input =
        [SetVirtualUrl (rejoin (parse_input (strip input))),
         SetUrl (rewritten_target (parse_input (strip input))),
         SetTabText (fst (parse_input (strip input)))]) \<and>
   (lower (strip input) \<notin> {''start'', ''websites/start''} \<and> \<not> validate_input (strip input) \<longrightarrow>
      load_page input = [SetHtml (error_html ''Invalid domain format'')] \<and>
      run (load_page input) v = v\<lparr>location := Document (error_html ''Invalid domain format'')\<rparr> \<and>
      virtual_url (run (load_page input) v) = virtual_url v) \<and>
   load_page ''start'' = [SetUrl START_PAGE] \<and>
   load_page ''websites/start'' = [SetUrl START_PAGE]"
proof -
  have s: "lower (strip ''start'') = ''start''" "lower (strip ''websites/start'') = ''websites/start''"
    by code_simp+
  show ?thesis
    by (simp add: load_page_cases [of input] load_page_cases [of "''start''"]
        load_page_cases [of "''websites/start''"] s run_simps)
qed

theorem address_bar_submission_witness:
  "load_page '' Websites/Start '' = [SetUrl START_PAGE] \<and>
   load_page '' example.com/foo '' =
     [SetVirtualUrl ''example.com/foo'',
      SetUrl ''https://datlittladucky.github.io/Websites/example.com/foo.html'',
      SetTabText ''example.com''] \<and>
   \<not> validate_input (strip ''not a domain'') \<and>
   load_page ''not a domain'' = [SetHtml (error_html ''Invalid domain format'')] \<and>
   virtual_url (run (load_page ''not a domain'')
      \<lparr>location = Url START_PAGE, virtual_url = ''example.com'', tab_text = ''example.com''\<rparr>) =
     ''example.com''"
proof -
  let ?v = "\<lparr>location = Url START_PAGE, virtual_url = ''example.com'', tab_text = ''example.com''\<rparr>"
  have a: "lower (strip '' Websites/Start '') \<in> {''start'', ''websites/start''}" by code_simp
  have b: "lower (strip '' example.com/foo '') \<notin> {''start'', ''websites/start''}"
    "validate_input (strip '' example.com/foo '')" by code_simp+
  have c: "lower (strip ''not a domain'') \<notin> {''start'', ''websites/start''}"
    "\<not> validate_input (strip ''not a domain'')" by code_simp+
  have p: "parse_input (strip '' example.com/foo '') = (''example.com'', ''foo'')" by code_simp
  have r: "rewritten_target (''example.com'', ''foo'') =
      ''https://datlittladucky.github.io/Websites/example.com/foo.html''"
    "rejoin (''example.com'', ''foo'') = ''example.com/foo''"
    by code_simp+
  from address_bar_submission [of "'' Websites/Start ''"] a
  have 1: "load_page '' Websites/Start '' = [SetUrl START_PAGE]" by blast
  from address_bar_submission [of "'' example.com/foo ''"] b
  have 2: "load_page '' example.com/foo '' =
        [SetVirtualUrl (rejoin (parse_input (strip '' example.com/foo ''))),
         SetUrl (rewritten_target (parse_input (strip '' example.com/foo ''))),
         SetTabText (fst (parse_input (strip '' example.com/foo '')))]" by blast
  from address_bar_submission [of "''not a domain''" ?v] c
  have 3: "load_page ''not a domain'' = [SetHtml (error_html ''Invalid domain format'')] \<and>
      virtual_url (run (load_page ''not a domain'') ?v) = virtual_url ?v" by blast
  have 4: "virtual_url ?v = ''example.com''" by simp
  from 3 have 5: "virtual_url (run (load_page ''not a domain'') ?v) = ''example.com''"
    unfolding 4 by (rule conjunct2)
  from 3 have 6: "load_page ''not a domain'' = [SetHtml (error_html ''Invalid domain format'')]"
    by (rule conjunct1)
  from 1 2 5 6 c(2) show ?thesis unfolding p r fst_conv by blast
qed

subsection \<open>The Rewritten Target\<close>

text \<open>
  C8: the address \<open>example.com\<close> gives the Rewritten Target
  \<open>https://datlittladucky.github.io/Websites/example.com/index.html\<close> and the Virtual
  Address \<open>example.com\<close>; the address \<open>example.com/foo/bar\<close> gives
  \<open>https://datlittladucky.github.io/Websites/example.com/foo/bar.html\<close> and
  \<open>example.com/foo/bar\<close>; this holds for the address bar and for the interceptor. In
  general, for a validated input parsed into a domain and a sub-path, both load the host,
  the domain and the sub-path with \<open>.html\<close> when the sub-path is not empty, and the host,
  the domain and \<open>index.html\<close> otherwise.
\<close>

theorem rewritten_target_scenarios:
  "load_page ''example.com'' =
     [SetVirtualUrl ''example.com'',
      SetUrl ''https://datlittladucky.github.io/Websites/example.com/index.html'',
      SetTabText ''example.com''] \<and>
   load_page ''example.com/foo/bar'' =
     [SetVirtualUrl ''example.com/foo/bar'',
      SetUrl ''https://datlittladucky.github.io/Websites/example.com/foo/bar.html'',
      SetTabText ''example.com''] \<and>
   acceptNavigationRequest ''https://example.com'' =
     ([SetVirtualUrl ''example.com'',
       SetUrl ''https://datlittladucky.github.io/Websites/example.com/index.html''], False) \<and>
   acceptNavigationRequest ''https://example.com/foo/bar'' =
     ([SetVirtualUrl ''example.com/foo/bar'',
       SetUrl ''https://datlittladucky.github.io/Websites/example.com/foo/bar.html''], False) \<and>
   (validate_input (strip input) \<and> parse_input (strip input) = (domain, subpath) \<longrightarrow>
      load_page input =
        [SetVirtualUrl (if subpath \<noteq> [] then domain @ ''/'' @ subpath else domain),
         SetUrl (if subpath \<noteq> [] then static_host @ ''/'' @ domain @ ''/'' @ subpath @ ''.html''
                 else static_host @ ''/'' @ domain @ ''/index.html''),
         SetTabText domain]) \<and>
   (\<not> startswith url GITHUB_BASE \<and> scheme_match url = Some user_input \<and>
    validate_input user_input \<and> parse_input user_input = (domain, subpath) \<longrightarrow>
      acceptNavigationRequest url =
        ([SetVirtualUrl (if subpath \<noteq> [] then domain @ ''/'' @ subpath else domain),
          SetUrl (if subpath \<noteq> [] then static_host @ ''/'' @ domain @ ''/'' @ subpath @ ''.html''
                  else static_host @ ''/'' @ domain @ ''/index.html'')], False))"
proof -
  have a: "load_page ''example.com'' =
     [SetVirtualUrl ''example.com'',
      SetUrl ''https://datlittladucky.github.io/Websites/example.com/index.html'',
      SetTabText ''example.com'']" by code_simp
  have b: "load_page ''example.com/foo/bar'' =
     [SetVirtualUrl ''example.com/foo/bar'',
      SetUrl ''https://datlittladucky.github.io/Websites/example.com/foo/bar.html'',
      SetTabText ''example.com'']" by code_simp
  have c: "acceptNavigationRequest ''https://example.com'' =
     ([SetVirtualUrl ''example.com'',
       SetUrl ''https://datlittladucky.github.io/Websites/example.com/index.html''], False)"
    by code_simp
  have d: "acceptNavigationRequest ''https://example.com/foo/bar'' =
     ([SetVirtualUrl ''example.com/foo/bar'',
       SetUrl ''https://datlittladucky.github.io/Websites/example.com/foo/bar.html''], False)"
    by code_simp
  have e: "validate_input (strip input) \<and> parse_input (strip input) = (domain, subpath) \<longrightarrow>
      load_page input =
        [SetVirtualUrl (if subpath \<noteq> [] then domain @ ''/'' @ subpath else domain),
         SetUrl (if subpath \<noteq> [] then static_host @ ''/'' @ domain @ ''/'' @ subpath @ ''.html''
                 else static_host @ ''/'' @ domain @ ''/index.html''),
         SetTabText domain]"
    using validated_not_start [of "strip input"]
    by (simp add: load_page_def Let_def base_host)
  have f: "\<not> startswith url GITHUB_BASE \<and> scheme_match url = Some user_input \<and>
    validate_input user_input \<and> parse_input user_input = (domain, subpath) \<longrightarrow>
      acceptNavigationRequest url =
        ([SetVirtualUrl (if subpath \<noteq> [] then domain @ ''/'' @ subpath else domain),
          SetUrl (if subpath \<noteq> [] then static_host @ ''/'' @ domain @ ''/'' @ subpath @ ''.html''
                  else static_host @ ''/'' @ domain @ ''/index.html'')], False)"
    by (simp add: acceptNavigationRequest_def Let_def base_host)
  from a b c d e f show ?thesis by (intro conjI)
qed

theorem rewritten_target_scenarios_witness:
  "validate_input (strip ''https://a-b.co.uk/x_1/'') \<and>
   parse_input (strip ''https://a-b.co.uk/x_1/'') = (''a-b.co.uk'', ''x_1'') \<and>
   load_page ''https://a-b.co.uk/x_1/'' =
     [SetVirtualUrl ''a-b.co.uk/x_1'',
      SetUrl ''https://datlittladucky.github.io/Websites/a-b.co.uk/x_1.html'',
      SetTabText ''a-b.co.uk''] \<and>
   scheme_match ''http://sub.example.org'' = Some ''sub.example.org'' \<and>
   acceptNavigationRequest ''http://sub.example.org'' =
     ([SetVirtualUrl ''sub.example.org'',
       SetUrl ''https://datlittladucky.github.io/Websites/sub.example.org/index.html''], False)"
proof -
  have a: "validate_input (strip ''https://a-b.co.uk/x_1/'')"
    "parse_input (strip ''https://a-b.co.uk/x_1/'') = (''a-b.co.uk'', ''x_1'')"
    by code_simp+
  have b: "\<not> startswith ''http://sub.example.org'' GITHUB_BASE"
    "scheme_match ''http://sub.example.org'' = Some ''sub.example.org''"
    "validate_input ''sub.example.org''"
    "parse_input ''sub.example.org'' = (''sub.example.org'', [])"
    by code_simp+
  have h: "static_host @ ''/'' @ ''a-b.co.uk'' @ ''/'' @ ''x_1'' @ ''.html'' =
      ''https://datlittladucky.github.io/Websites/a-b.co.uk/x_1.html''"
    "static_host @ ''/'' @ ''sub.example.org'' @ ''/index.html'' =
      ''https://datlittladucky.github.io/Websites/sub.example.org/index.html''"
    by (simp_all add: static_host_def)
  from rewritten_target_scenarios [of "''https://a-b.co.uk/x_1/''" "''a-b.co.uk''" "''x_1''"] a
  have 1: "load_page ''https://a-b.co.uk/x_1/'' =
     [SetVirtualUrl ''a-b.co.uk/x_1'',
      SetUrl ''https://datlittladucky.github.io/Websites/a-b.co.uk/x_1.html'',
      SetTabText ''a-b.co.uk'']"
    using h(1) by simp
  from rewritten_target_scenarios
    [of _ "''sub.example.org''" "[]" "''http://sub.example.org''" "''sub.example.org''"] b
  have 2: "acceptNavigationRequest ''http://sub.example.org'' =
     ([SetVirtualUrl ''sub.example.org'',
       SetUrl ''https://datlittladucky.github.io/Websites/sub.example.org/index.html''], False)"
    using h(2) by simp
  from a b(2) 1 2 show ?thesis by (intro conjI)
qed

subsection \<open>Parsing and putting together again\<close>

text \<open>
  C9: every string of the address grammar is accepted by \<open>validate_input\<close>, and parsing
  it, putting domain and sub-path together again and parsing the result gives the same
  domain and sub-path; what is put together is the input without its scheme and without
  the slashes at its ends.
\<close>

theorem parse_round_trip:
  assumes "address_grammar s"
  shows "validate_input s \<and> parse_input (rejoin (parse_input s)) = parse_input s \<and>
         rejoin (parse_input s) = normalise s"
proof -
  from assms have v: "validate_input s" by (simp add: validate_input_iff)
  from grammar_shape [OF assms] obtain scheme rest where
    s: "s = scheme @ rest" "scheme \<in> {[], ''http://'', ''https://''}" "CHR '':'' \<notin> set rest"
    by blast
  have r: "rejoin (parse_input s) = normalise s"
    using parse_input_validated [OF v] rejoin_parse_spec [of s] by simp
  have "parse_input (normalise s) = parse_input s"
    unfolding s(1) using s(2,3) by (rule parse_input_normal)
  with v r show ?thesis by simp
qed

theorem parse_round_trip_witness:
  "address_grammar ''https://example.com/foo/bar/'' \<and>
   validate_input ''https://example.com/foo/bar/'' \<and>
   parse_input ''https://example.com/foo/bar/'' = (''example.com'', ''foo/bar'') \<and>
   rejoin (''example.com'', ''foo/bar'') = ''example.com/foo/bar'' \<and>
   parse_input ''example.com/foo/bar'' = (''example.com'', ''foo/bar'')"
proof -
  have g: "address_grammar ''https://example.com/foo/bar/''"
    unfolding grammar_fullmatch by code_simp
  have p: "parse_input ''https://example.com/foo/bar/'' = (''example.com'', ''foo/bar'')"
    by code_simp
  have n: "normalise ''https://example.com/foo/bar/'' = ''example.com/foo/bar''"
    by code_simp
  from parse_round_trip [OF g] g show ?thesis unfolding p n by simp
qed

subsection \<open>Two slashes in a row\<close>

text \<open>
  C10, as stated, fails: \<open>example.com//\<close> is accepted and contains two slashes in a row,
  yet its sub-path is empty and so does not begin with a slash.
\<close>

theorem double_slash_counterexample:
  "validate_input ''example.com//'' \<and> contains ''example.com//'' ''//'' \<and>
   parse_input ''example.com//'' = (''example.com'', [])"
  by code_simp

text \<open>
  C10, amended: the input \<open>example.com//foo\<close> is accepted by \<open>validate_input\<close> and contains
  two slashes in a row; its sub-path is \<open>/foo\<close>, its Rewritten Target ends in
  \<open>example.com//foo.html\<close> and its Virtual Address is \<open>example.com//foo\<close>. For every
  accepted input in which, once the scheme and the slashes at both ends are stripped, the
  domain is followed by two slashes, the sub-path begins with a slash and the Rewritten
  Target and the Virtual Address hold the two slashes after the domain.
\<close>

theorem double_slash_subpath:
  "validate_input ''example.com//foo'' \<and> contains ''example.com//foo'' ''//'' \<and>
   parse_input ''example.com//foo'' = (''example.com'', ''/foo'') \<and>
   load_page ''example.com//foo'' =
     [SetVirtualUrl ''example.com//foo'',
      SetUrl ''https://datlittladucky.github.io/Websites/example.com//foo.html'',
      SetTabText ''example.com''] \<and>
   (validate_input (strip input) \<and> normalise (strip input) = d @ ''//'' @ p \<and>
    CHR ''/'' \<notin> set d \<longrightarrow>
      parse_input (strip input) = (d, ''/'' @ p) \<and>
      load_page input =
        [SetVirtualUrl (d @ ''//'' @ p), SetUrl (GITHUB_BASE @ d @ ''//'' @ p @ ''.html''),
         SetTabText d])"
proof -
  have a: "validate_input ''example.com//foo''" "contains ''example.com//foo'' ''//''"
    "parse_input ''example.com//foo'' = (''example.com'', ''/foo'')"
    "load_page ''example.com//foo'' =
     [SetVirtualUrl ''example.com//foo'',
      SetUrl ''https://datlittladucky.github.io/Websites/example.com//foo.html'',
      SetTabText ''example.com'']"
    by code_simp+
  have g: "parse_input (strip input) = (d, ''/'' @ p) \<and>
      load_page input =
        [SetVirtualUrl (d @ ''//'' @ p), SetUrl (GITHUB_BASE @ d @ ''//'' @ p @ ''.html''),
         SetTabText d]"
    if v: "validate_input (strip input)" and n: "normalise (strip input) = d @ ''//'' @ p"
      and s: "CHR ''/'' \<notin> set d"
  proof -
    have "parse_spec (strip input) = (d, ''/'' @ p)"
      using takeWhile_domain [OF s, of "CHR ''/'' # p"] by (simp add: parse_spec_def n)
    with parse_input_validated [OF v] have q: "parse_input (strip input) = (d, ''/'' @ p)"
      by simp
    from validated_not_start [OF v] v q show ?thesis
      by (simp add: load_page_def Let_def)
  qed
  from a g show ?thesis by blast
qed

theorem double_slash_subpath_witness:
  "validate_input (strip '' https://a.org//x/y '') \<and>
   normalise (strip '' https://a.org//x/y '') = ''a.org'' @ ''//'' @ ''x/y'' \<and>
   parse_input (strip '' https://a.org//x/y '') = (''a.org'', ''/x/y'') \<and>
   load_page '' https://a.org//x/y '' =
     [SetVirtualUrl ''a.org//x/y'',
      SetUrl ''https://datlittladucky.github.io/Websites/a.org//x/y.html'',
      SetTabText ''a.org'']"
proof -
  have a: "validate_input (strip '' https://a.org//x/y '')"
    "normalise (strip '' https://a.org//x/y '') = ''a.org'' @ ''//'' @ ''x/y''"
    "CHR ''/'' \<notin> set ''a.org''"
    by code_simp+
  from double_slash_subpath [of "'' https://a.org//x/y ''" "''a.org''" "''x/y''"] a
  have "parse_input (strip '' https://a.org//x/y '') = (''a.org'', ''/'' @ ''x/y'') \<and>
      load_page '' https://a.org//x/y '' =
        [SetVirtualUrl (''a.org'' @ ''//'' @ ''x/y''),
         SetUrl (GITHUB_BASE @ ''a.org'' @ ''//'' @ ''x/y'' @ ''.html''),
         SetTabText ''a.org'']"
    by blast
  with a(1,2) show ?thesis by (simp add: GITHUB_BASE_def)
qed

end
